theory Spec2Isabelle
  imports Main
begin

section \<open>The Ripley scraper: resilient extraction and session persistence\<close>

text \<open>
  The development embeds \<^verbatim>\<open>src/pipeline/scrapper.py\<close> (class \<^verbatim>\<open>Scrapper\<close>) and the
  cookie functions of \<^verbatim>\<open>src/scripts/main_scrapper.py\<close>. The browser, the clock, the file
  system and the console are the environment of the program: they are a parameter of every
  definition, so each theorem holds for every page and every driver behaviour.
\<close>

subsection \<open>Python values and exceptions\<close>

text \<open>
  The subclasses of \<^verbatim>\<open>Exception\<close> that the modelled calls raise. The asynchronous
  \<^verbatim>\<open>BaseException\<close>s (\<^verbatim>\<open>KeyboardInterrupt\<close>, \<^verbatim>\<open>SystemExit\<close>) are outside the model.
\<close>

datatype exn =
    TimeoutException
  | NoSuchElementException
  | StaleElementReferenceException
  | WebDriverException
  | FileNotFoundError
  | PermissionError
  | UnpicklingError
  | TypeError
  | AttributeError
  | ValueError
  | EOFError

text \<open>
  A cell of a result list is what Python appends to it: a \<^verbatim>\<open>str\<close>, or \<^verbatim>\<open>None\<close>
  (Selenium's \<^verbatim>\<open>get_attribute\<close> returns \<^verbatim>\<open>str | None\<close>).
\<close>

type_synonym cell = "string option"

text \<open>The objects a pickle can hold, as far as \<^verbatim>\<open>load_cookies\<close> tells them apart.\<close>

datatype pyobj =
    PyNone
  | PyInt int
  | PyStr string
  | PyList "pyobj list"
  | PyDict "(string \<times> pyobj) list"

text \<open>\<^verbatim>\<open>for cookie in cookies\<close>: iteration over a Python object.\<close>

fun py_iter :: "pyobj \<Rightarrow> exn + pyobj list" where
  "py_iter (PyList xs) = Inr xs"
| "py_iter (PyStr s) = Inr (map (\<lambda>c. PyStr [c]) s)"
| "py_iter (PyDict kvs) = Inr (map (\<lambda>kv. PyStr (fst kv)) kvs)"
| "py_iter PyNone = Inl TypeError"
| "py_iter (PyInt n) = Inl TypeError"

subsection \<open>The environment\<close>

text \<open>
  Every call into Selenium or the operating system takes the state of the environment and
  returns the new one together with its result or the exception it raised. Elements are
  handles. Durations are in milliseconds.
\<close>

record 'd env =
  wait_presence :: "nat \<Rightarrow> string \<Rightarrow> 'd \<Rightarrow> (exn + nat) \<times> 'd"
  element_text :: "nat \<Rightarrow> 'd \<Rightarrow> (exn + string) \<times> 'd"
  element_get_attribute :: "nat \<Rightarrow> string \<Rightarrow> 'd \<Rightarrow> (exn + cell) \<times> 'd"
  scroll_by_amount :: "int \<Rightarrow> int \<Rightarrow> 'd \<Rightarrow> (exn + unit) \<times> 'd"
  time_sleep :: "nat \<Rightarrow> 'd \<Rightarrow> 'd"
  driver_get :: "string \<Rightarrow> 'd \<Rightarrow> (exn + unit) \<times> 'd"
  maximize_window :: "'d \<Rightarrow> (exn + unit) \<times> 'd"
  implicitly_wait :: "int \<Rightarrow> 'd \<Rightarrow> (exn + unit) \<times> 'd"
  wait_ready_state :: "nat \<Rightarrow> 'd \<Rightarrow> (exn + unit) \<times> 'd"
  get_cookies :: "'d \<Rightarrow> (exn + pyobj list) \<times> 'd"
  add_cookie :: "pyobj \<Rightarrow> 'd \<Rightarrow> (exn + unit) \<times> 'd"
  console_input :: "string \<Rightarrow> 'd \<Rightarrow> (exn + string) \<times> 'd"

text \<open>A file holds a pickle of an object, or bytes that \<^verbatim>\<open>pickle.load\<close> rejects.\<close>

datatype blob = Pickled pyobj | Garbage "nat list"

datatype fnode = Absent | NoAccess | Regular blob

text \<open>\<^verbatim>\<open>pickle.load\<close> on the content of a file.\<close>

fun unpickle :: "blob \<Rightarrow> exn + pyobj" where
  "unpickle (Pickled obj) = Inr obj"
| "unpickle (Garbage bytes) = Inl UnpicklingError"

text \<open>A \<^verbatim>\<open>DataFrame\<close> built from a dict of lists: the columns in the order of the dict.\<close>

type_synonym dataframe = "(string \<times> cell list) list"

text \<open>
  What the program does to the outside world, in order: the calls that the theorems observe.
  \<^verbatim>\<open>LogProcessing i\<close> is the line \<^verbatim>\<open>Processing product i\<close> of the log,
  \<^verbatim>\<open>CallScrollPage\<close> an invocation of \<^verbatim>\<open>_scroll_page\<close> with its arguments,
  \<^verbatim>\<open>ScrollBy\<close> a call of \<^verbatim>\<open>scroll_by_amount(..).perform()\<close>, \<^verbatim>\<open>Prompt\<close> a call of
  \<^verbatim>\<open>input\<close>, \<^verbatim>\<open>ToCsv\<close> a call of \<^verbatim>\<open>to_csv\<close>.
\<close>

datatype event =
    LogProcessing nat
  | LogSlotError nat exn
  | LogScrollError exn
  | CallScrollPage int int int
  | ScrollBy int int
  | Sleep nat
  | Prompt string
  | ToCsv string dataframe

record 'd world =
  dstate :: 'd
  files :: "string \<Rightarrow> fnode"
  trace :: "event list"

definition emit :: "event \<Rightarrow> 'd world \<Rightarrow> 'd world" where
  "emit ev w = w\<lparr>trace := trace w @ [ev]\<rparr>"

definition sleep :: "'d env \<Rightarrow> nat \<Rightarrow> 'd world \<Rightarrow> 'd world" where
  "sleep E ms w = emit (Sleep ms) (w\<lparr>dstate := time_sleep E ms (dstate w)\<rparr>)"

subsection \<open>Locator strategy and field extractor\<close>

text \<open>\<^verbatim>\<open>except (TimeoutException, NoSuchElementException)\<close>\<close>

definition is_absence :: "exn \<Rightarrow> bool" where
  "is_absence e = (e = TimeoutException \<or> e = NoSuchElementException)"

definition find_element_safe ::
  "'d env \<Rightarrow> string \<Rightarrow> nat \<Rightarrow> 'd world \<Rightarrow> (exn + string) \<times> 'd world" where
  "find_element_safe E xpath timeout w =
     (case wait_presence E timeout xpath (dstate w) of
        (Inl e, d1) \<Rightarrow>
          (if is_absence e then (Inr '''', w\<lparr>dstate := d1\<rparr>) else (Inl e, w\<lparr>dstate := d1\<rparr>))
      | (Inr el, d1) \<Rightarrow>
          (case element_text E el d1 of
             (Inl e, d2) \<Rightarrow>
               (if is_absence e then (Inr '''', w\<lparr>dstate := d2\<rparr>) else (Inl e, w\<lparr>dstate := d2\<rparr>))
           | (Inr s, d2) \<Rightarrow> (Inr s, w\<lparr>dstate := d2\<rparr>)))"

fun find_image_safe ::
  "'d env \<Rightarrow> string list \<Rightarrow> nat \<Rightarrow> 'd world \<Rightarrow> (exn + cell) \<times> 'd world" where
  "find_image_safe E [] timeout w = (Inr (Some ''''), w)"
| "find_image_safe E (xpath # xpaths) timeout w =
     (case wait_presence E timeout xpath (dstate w) of
        (Inl e, d1) \<Rightarrow>
          (if is_absence e then find_image_safe E xpaths timeout (w\<lparr>dstate := d1\<rparr>)
           else (Inl e, w\<lparr>dstate := d1\<rparr>))
      | (Inr el, d1) \<Rightarrow>
          (case element_get_attribute E el ''src'' d1 of
             (Inl e, d2) \<Rightarrow>
               (if is_absence e then find_image_safe E xpaths timeout (w\<lparr>dstate := d2\<rparr>)
                else (Inl e, w\<lparr>dstate := d2\<rparr>))
           | (Inr v, d2) \<Rightarrow> (Inr v, w\<lparr>dstate := d2\<rparr>)))"

subsection \<open>Scroll driver\<close>

text \<open>
  The loop \<^verbatim>\<open>for i in range(max_scrolls)\<close> of \<^verbatim>\<open>_scroll_page\<close>, by the number of
  iterations left. An exception of the step is logged and leaves the loop.
\<close>

fun scroll_loop :: "'d env \<Rightarrow> nat \<Rightarrow> int \<Rightarrow> int \<Rightarrow> 'd world \<Rightarrow> 'd world" where
  "scroll_loop E 0 current step w = w"
| "scroll_loop E (Suc n) current step w =
     (case scroll_by_amount E current step (dstate w) of
        (Inl e, d1) \<Rightarrow>
          emit (LogScrollError e) (emit (ScrollBy current step) (w\<lparr>dstate := d1\<rparr>))
      | (Inr u, d1) \<Rightarrow>
          scroll_loop E n (current + step) step
            (sleep E 200 (emit (ScrollBy current step) (w\<lparr>dstate := d1\<rparr>))))"

definition scroll_page ::
  "'d env \<Rightarrow> int \<Rightarrow> int \<Rightarrow> int \<Rightarrow> 'd world \<Rightarrow> (exn + unit) \<times> 'd world" where
  "scroll_page E start step max_scrolls w =
     (Inr (), scroll_loop E (nat max_scrolls) start step
                (emit (CallScrollPage start step max_scrolls) w))"

subsection \<open>Listing harvester\<close>

text \<open>\<^verbatim>\<open>str(i)\<close> for a slot index.\<close>

fun str_nat :: "nat \<Rightarrow> string" where
  "str_nat n =
     (if n < 10 then [char_of (48 + n)] else str_nat (n div 10) @ [char_of (48 + n mod 10)])"

declare str_nat.simps [simp del]

definition image_xpaths :: "string list" where
  "image_xpaths =
     [''//div[2]/div[2]/div[1]/img'',
      ''//div[2]/div[2]/div[4]/img'',
      ''//div[2]/div[2]/div[3]/img'',
      ''//div[2]/div[2]/div[2]/img'']"

definition product_xpath :: "nat \<Rightarrow> string" where
  "product_xpath i =
     ''/html/body/div[7]/div[2]/div/div[2]/section/div/div/div['' @ str_nat i @ '']''"

definition desc_xpath :: "nat \<Rightarrow> string" where
  "desc_xpath i = product_xpath i @ ''/div/a/div[3]/div[3]''"

definition price_reg_xpath :: "nat \<Rightarrow> string" where
  "price_reg_xpath i = product_xpath i @ ''/div/a/div[3]/div[4]/div/ul/li[1]''"

definition price_off_xpath :: "nat \<Rightarrow> string" where
  "price_off_xpath i = product_xpath i @ ''/div/a/div[3]/div[4]/div/ul/li[2]''"

definition img_xpaths :: "nat \<Rightarrow> string list" where
  "img_xpaths i = map (\<lambda>path. product_xpath i @ ''/div/a'' @ path) image_xpaths"

text \<open>The four parallel lists that \<^verbatim>\<open>scrap_ripley\<close> fills and returns.\<close>

record lists =
  descripciones :: "cell list"
  precios_regular :: "cell list"
  precios_oferta :: "cell list"
  imagenes :: "cell list"

definition empty_lists :: lists where
  "empty_lists =
     \<lparr>descripciones = [], precios_regular = [], precios_oferta = [], imagenes = []\<rparr>"

definition append_record :: "lists \<Rightarrow> cell \<Rightarrow> cell \<Rightarrow> cell \<Rightarrow> cell \<Rightarrow> lists" where
  "append_record acc d r ofr im =
     \<lparr>descripciones = descripciones acc @ [d],
      precios_regular = precios_regular acc @ [r],
      precios_oferta = precios_oferta acc @ [ofr],
      imagenes = imagenes acc @ [im]\<rparr>"

text \<open>The four lookups of one attempt (the body of the \<^verbatim>\<open>try\<close>, before the appends).\<close>

definition lookup_fields ::
  "'d env \<Rightarrow> nat \<Rightarrow> 'd world \<Rightarrow> (exn + string \<times> string \<times> string \<times> cell) \<times> 'd world" where
  "lookup_fields E i w =
     (case find_element_safe E (desc_xpath i) 3 w of
        (Inl e, w1) \<Rightarrow> (Inl e, w1)
      | (Inr desc, w1) \<Rightarrow>
     (case find_element_safe E (price_reg_xpath i) 3 w1 of
        (Inl e, w2) \<Rightarrow> (Inl e, w2)
      | (Inr price_reg, w2) \<Rightarrow>
     (case find_element_safe E (price_off_xpath i) 3 w2 of
        (Inl e, w3) \<Rightarrow> (Inl e, w3)
      | (Inr price_off, w3) \<Rightarrow>
     (case find_image_safe E (img_xpaths i) 3 w3 of
        (Inl e, w4) \<Rightarrow> (Inl e, w4)
      | (Inr img, w4) \<Rightarrow> (Inr (desc, price_reg, price_off, img), w4)))))"

text \<open>
  \<^verbatim>\<open>for retry in range(max_retries)\<close>, by the values of \<^verbatim>\<open>retry\<close> still to come:
  a successful attempt appends its record and breaks; a failed one appends the empty
  record when \<^verbatim>\<open>retry == max_retries - 1\<close> and sleeps half a second otherwise.
\<close>

fun retry_loop ::
  "'d env \<Rightarrow> nat \<Rightarrow> nat \<Rightarrow> nat list \<Rightarrow> lists \<Rightarrow> 'd world \<Rightarrow> lists \<times> 'd world" where
  "retry_loop E i max_retries [] acc w = (acc, w)"
| "retry_loop E i max_retries (retry # rest) acc w =
     (case lookup_fields E i w of
        (Inr (desc, price_reg, price_off, img), w1) \<Rightarrow>
          (append_record acc (Some desc) (Some price_reg) (Some price_off) img, w1)
      | (Inl e, w1) \<Rightarrow>
          (if retry = max_retries - 1
           then retry_loop E i max_retries rest
                  (append_record acc (Some '''') (Some '''') (Some '''') (Some ''''))
                  (emit (LogSlotError i e) w1)
           else retry_loop E i max_retries rest acc (sleep E 500 w1)))"

text \<open>One iteration of \<^verbatim>\<open>for i in range(1, 50)\<close>.\<close>

definition process_slot :: "'d env \<Rightarrow> nat \<Rightarrow> lists \<Rightarrow> 'd world \<Rightarrow> lists \<times> 'd world" where
  "process_slot E i acc w =
     (case retry_loop E i 2 [0..<2] acc (emit (LogProcessing i) w) of
        (acc1, w1) \<Rightarrow>
          (if i mod 10 = 0 then (acc1, snd (scroll_page E 0 800 30 w1)) else (acc1, w1)))"

fun harvest_loop :: "'d env \<Rightarrow> nat list \<Rightarrow> lists \<Rightarrow> 'd world \<Rightarrow> lists \<times> 'd world" where
  "harvest_loop E [] acc w = (acc, w)"
| "harvest_loop E (i # slots) acc w =
     (case process_slot E i acc w of (acc1, w1) \<Rightarrow> harvest_loop E slots acc1 w1)"

definition scrap_ripley :: "'d env \<Rightarrow> 'd world \<Rightarrow> (exn + lists) \<times> 'd world" where
  "scrap_ripley E w =
     (case harvest_loop E [1..<50] empty_lists w of (acc, w1) \<Rightarrow> (Inr acc, w1))"


subsection \<open>Tabular export\<close>

text \<open>
  \<^verbatim>\<open>pd.DataFrame({...})\<close> raises \<^verbatim>\<open>ValueError\<close> when the lists differ in length.
\<close>

definition transform_to_df ::
  "cell list \<Rightarrow> cell list \<Rightarrow> cell list \<Rightarrow> cell list \<Rightarrow> exn + dataframe" where
  "transform_to_df ds rs os ims =
     (if length ds = length rs \<and> length rs = length os \<and> length os = length ims
      then Inr [(''descripcion'', ds), (''precio_regular'', rs),
                (''precio_oferta'', os), (''imagen'', ims)]
      else Inl ValueError)"

text \<open>\<^verbatim>\<open>__init__\<close> sets \<^verbatim>\<open>self.driver\<close> and nothing else.\<close>

definition scrapper_attributes :: "string list" where
  "scrapper_attributes = [''driver'']"

text \<open>
  \<^verbatim>\<open>_wait_for_page_load\<close> reads \<^verbatim>\<open>self.wait\<close> inside a \<^verbatim>\<open>try\<close> whose only handler is
  \<^verbatim>\<open>except TimeoutException\<close>.
\<close>

definition wait_for_page_load :: "'d env \<Rightarrow> nat \<Rightarrow> 'd world \<Rightarrow> (exn + unit) \<times> 'd world" where
  "wait_for_page_load E timeout w =
     (case (if ''wait'' \<in> set scrapper_attributes
            then wait_ready_state E timeout (dstate w)
            else (Inl AttributeError, dstate w)) of
        (Inl e, d1) \<Rightarrow>
          (if e = TimeoutException then (Inr (), w\<lparr>dstate := d1\<rparr>) else (Inl e, w\<lparr>dstate := d1\<rparr>))
      | (Inr u, d1) \<Rightarrow> (Inr (), w\<lparr>dstate := d1\<rparr>))"

fun str_int :: "int \<Rightarrow> string" where
  "str_int n = (if n < 0 then CHR ''-'' # str_nat (nat (- n)) else str_nat (nat n))"

definition get_data_from_pagenumber ::
  "'d env \<Rightarrow> string \<Rightarrow> int \<Rightarrow> string \<Rightarrow> 'd world \<Rightarrow> (exn + dataframe) \<times> 'd world" where
  "get_data_from_pagenumber E base_url page_number export_path w =
     (case driver_get E (base_url @ ''&page='' @ str_int page_number) (dstate w) of
        (Inl e, d1) \<Rightarrow> (Inl e, w\<lparr>dstate := d1\<rparr>)
      | (Inr u1, d1) \<Rightarrow>
     (case maximize_window E d1 of
        (Inl e, d2) \<Rightarrow> (Inl e, w\<lparr>dstate := d2\<rparr>)
      | (Inr u2, d2) \<Rightarrow>
     (case implicitly_wait E 5 d2 of
        (Inl e, d3) \<Rightarrow> (Inl e, w\<lparr>dstate := d3\<rparr>)
      | (Inr u3, d3) \<Rightarrow>
     (case wait_for_page_load E 10 (w\<lparr>dstate := d3\<rparr>) of
        (Inl e, w4) \<Rightarrow> (Inl e, w4)
      | (Inr u4, w4) \<Rightarrow>
     (case scrap_ripley E w4 of
        (Inl e, w5) \<Rightarrow> (Inl e, w5)
      | (Inr data, w5) \<Rightarrow>
     (case transform_to_df (descripciones data) (precios_regular data)
             (precios_oferta data) (imagenes data) of
        Inl e \<Rightarrow> (Inl e, w5)
      | Inr df \<Rightarrow>
          (if export_path \<noteq> [] then (Inr df, emit (ToCsv export_path df) w5)
           else (Inr df, w5))))))))"

subsection \<open>Page session manager\<close>

text \<open>
  \<^verbatim>\<open>save_cookies\<close>: \<^verbatim>\<open>open(cookie_path, 'wb')\<close> creates or truncates the file, and
  \<^verbatim>\<open>pickle.dump\<close> writes the list that \<^verbatim>\<open>driver.get_cookies()\<close> returned.
\<close>

definition save_cookies :: "'d env \<Rightarrow> string \<Rightarrow> 'd world \<Rightarrow> (exn + unit) \<times> 'd world" where
  "save_cookies E cookie_path w =
     (case get_cookies E (dstate w) of
        (Inl e, d1) \<Rightarrow> (Inl e, w\<lparr>dstate := d1\<rparr>)
      | (Inr cookies, d1) \<Rightarrow>
          (if files w cookie_path = NoAccess then (Inl PermissionError, w\<lparr>dstate := d1\<rparr>)
           else (Inr (), w\<lparr>dstate := d1,
                          files := (files w)(cookie_path := Regular (Pickled (PyList cookies)))\<rparr>)))"

text \<open>The inner loop of \<^verbatim>\<open>load_cookies\<close>: an exception of \<^verbatim>\<open>add_cookie\<close> is only logged.\<close>

fun add_cookies :: "'d env \<Rightarrow> pyobj list \<Rightarrow> 'd \<Rightarrow> 'd" where
  "add_cookies E [] d = d"
| "add_cookies E (cookie # cookies) d =
     (case add_cookie E cookie d of
        (Inl e, d1) \<Rightarrow> add_cookies E cookies d1
      | (Inr u, d1) \<Rightarrow> add_cookies E cookies d1)"

text \<open>The body of the outer \<^verbatim>\<open>try\<close> of \<^verbatim>\<open>load_cookies\<close>.\<close>

definition load_cookies_body ::
  "'d env \<Rightarrow> string \<Rightarrow> 'd world \<Rightarrow> (exn + bool) \<times> 'd world" where
  "load_cookies_body E cookie_path w =
     (case files w cookie_path of
        Absent \<Rightarrow> (Inl FileNotFoundError, w)
      | NoAccess \<Rightarrow> (Inl PermissionError, w)
      | Regular b \<Rightarrow>
          (case unpickle b of
             Inl e \<Rightarrow> (Inl e, w)
           | Inr cookies \<Rightarrow>
               (case py_iter cookies of
                  Inl e \<Rightarrow> (Inl e, w)
                | Inr cs \<Rightarrow> (Inr True, w\<lparr>dstate := add_cookies E cs (dstate w)\<rparr>))))"

text \<open>
  The handlers: \<^verbatim>\<open>except FileNotFoundError\<close> and \<^verbatim>\<open>except Exception\<close> both return
  \<^verbatim>\<open>False\<close>.
\<close>

definition load_cookies :: "'d env \<Rightarrow> string \<Rightarrow> 'd world \<Rightarrow> (exn + bool) \<times> 'd world" where
  "load_cookies E cookie_path w =
     (case load_cookies_body E cookie_path w of
        (Inl e, w1) \<Rightarrow> (if e = FileNotFoundError then (Inr False, w1) else (Inr False, w1))
      | (Inr b, w1) \<Rightarrow> (Inr b, w1))"

definition home_url :: string where
  "home_url = ''https://www.ripley.com.pe''"

text \<open>The prompt of the manual gate; its accented letter is two bytes of UTF-8.\<close>

definition captcha_prompt :: string where
  "captcha_prompt =
     ''Presiona Enter despu'' @ [char_of (195::nat), char_of (169::nat)] @
     ''s de resolver el captcha (si aparece)...''"

text \<open>
  The session block of \<^verbatim>\<open>main\<close> (from \<^verbatim>\<open>if not load_cookies(...)\<close> to the end of its
  \<^verbatim>\<open>else\<close>): without cookies it opens the home page, waits for the user at \<^verbatim>\<open>input\<close> and
  saves the cookies; with cookies it only opens the home page.
\<close>

definition open_home :: "'d env \<Rightarrow> int \<Rightarrow> 'd world \<Rightarrow> (exn + unit) \<times> 'd world" where
  "open_home E wait_time w =
     (case driver_get E home_url (dstate w) of
        (Inl e, d1) \<Rightarrow> (Inl e, w\<lparr>dstate := d1\<rparr>)
      | (Inr u1, d1) \<Rightarrow>
          (case implicitly_wait E wait_time d1 of
             (Inl e, d2) \<Rightarrow> (Inl e, w\<lparr>dstate := d2\<rparr>)
           | (Inr u2, d2) \<Rightarrow> (Inr (), w\<lparr>dstate := d2\<rparr>)))"

definition establish_session ::
  "'d env \<Rightarrow> string \<Rightarrow> int \<Rightarrow> 'd world \<Rightarrow> (exn + unit) \<times> 'd world" where
  "establish_session E cookie_path wait_time w =
     (case load_cookies E cookie_path w of
        (Inl e, w1) \<Rightarrow> (Inl e, w1)
      | (Inr loaded, w1) \<Rightarrow>
          (if \<not> loaded then
             (case open_home E wait_time w1 of
                (Inl e, w2) \<Rightarrow> (Inl e, w2)
              | (Inr u, w2) \<Rightarrow>
                  (case console_input E captcha_prompt (dstate w2) of
                     (Inl e, d3) \<Rightarrow> (Inl e, emit (Prompt captcha_prompt) (w2\<lparr>dstate := d3\<rparr>))
                   | (Inr line, d3) \<Rightarrow>
                       save_cookies E cookie_path
                         (emit (Prompt captcha_prompt) (w2\<lparr>dstate := d3\<rparr>))))
           else open_home E wait_time w1))"

text \<open>
  \<^verbatim>\<open>Scrapper.__init__(self, driver, base_url)\<close>; the argument \<^verbatim>\<open>base_url\<close> is
  \<^verbatim>\<open>None\<close> here when the call does not pass it.
\<close>

definition scrapper_init ::
  "'d env \<Rightarrow> string option \<Rightarrow> 'd world \<Rightarrow> (exn + unit) \<times> 'd world" where
  "scrapper_init E base_url w =
     (case base_url of
        None \<Rightarrow> (Inl TypeError, w)
      | Some url \<Rightarrow>
          (case driver_get E url (dstate w) of
             (Inl e, d1) \<Rightarrow> (Inl e, w\<lparr>dstate := d1\<rparr>)
           | (Inr u, d1) \<Rightarrow>
               (case maximize_window E d1 of
                  (Inl e, d2) \<Rightarrow> (Inl e, w\<lparr>dstate := d2\<rparr>)
                | (Inr u2, d2) \<Rightarrow> (Inr (), w\<lparr>dstate := d2\<rparr>))))"

text \<open>
  \<^verbatim>\<open>main\<close> from \<^verbatim>\<open>scrapper = Scrapper(driver)\<close>, a call with one argument, to the end of
  the session block.
\<close>

definition main_session ::
  "'d env \<Rightarrow> string \<Rightarrow> int \<Rightarrow> 'd world \<Rightarrow> (exn + unit) \<times> 'd world" where
  "main_session E cookie_path wait_time w =
     (case scrapper_init E None w of
        (Inl e, w1) \<Rightarrow> (Inl e, w1)
      | (Inr u, w1) \<Rightarrow> establish_session E cookie_path wait_time w1)"

section \<open>Vocabulary of the properties\<close>

text \<open>Component-wise concatenation of two results, and the record at one index.\<close>

definition lists_append :: "lists \<Rightarrow> lists \<Rightarrow> lists" where
  "lists_append a b =
     \<lparr>descripciones = descripciones a @ descripciones b,
      precios_regular = precios_regular a @ precios_regular b,
      precios_oferta = precios_oferta a @ precios_oferta b,
      imagenes = imagenes a @ imagenes b\<rparr>"

definition row :: "lists \<Rightarrow> nat \<Rightarrow> cell \<times> cell \<times> cell \<times> cell" where
  "row acc k =
     (descripciones acc ! k, precios_regular acc ! k, precios_oferta acc ! k, imagenes acc ! k)"

text \<open>The four lists have the same length \<open>n\<close>.\<close>

definition aligned :: "lists \<Rightarrow> nat \<Rightarrow> bool" where
  "aligned acc n \<longleftrightarrow>
     length (descripciones acc) = n \<and> length (precios_regular acc) = n \<and>
     length (precios_oferta acc) = n \<and> length (imagenes acc) = n"

definition empty_record :: "cell \<times> cell \<times> cell \<times> cell" where
  "empty_record = (Some '''', Some '''', Some '''', Some '''')"

text \<open>
  The expressions \<open>xs\<close>, tried in order from the state \<open>d\<close>, all end in a timeout or
  in no such element; the result is the state after the last of them.
\<close>

fun skip_absent :: "'d env \<Rightarrow> nat \<Rightarrow> string list \<Rightarrow> 'd \<Rightarrow> 'd option" where
  "skip_absent E timeout [] d = Some d"
| "skip_absent E timeout (x # xs) d =
     (case wait_presence E timeout x d of
        (Inl e, d1) \<Rightarrow> (if is_absence e then skip_absent E timeout xs d1 else None)
      | (Inr el, d1) \<Rightarrow> None)"

text \<open>The two attempts that the retry loop can make for slot \<open>i\<close> from the world \<open>w\<close>.\<close>

definition first_attempt ::
  "'d env \<Rightarrow> nat \<Rightarrow> 'd world \<Rightarrow> (exn + string \<times> string \<times> string \<times> cell) \<times> 'd world" where
  "first_attempt E i w = lookup_fields E i (emit (LogProcessing i) w)"

definition second_attempt ::
  "'d env \<Rightarrow> nat \<Rightarrow> 'd world \<Rightarrow> (exn + string \<times> string \<times> string \<times> cell) \<times> 'd world" where
  "second_attempt E i w = lookup_fields E i (sleep E 500 (snd (first_attempt E i w)))"

text \<open>
  The slots at which the trace shows an invocation of the scroll driver: each
  \<^verbatim>\<open>CallScrollPage\<close> belongs to the slot of the last \<^verbatim>\<open>LogProcessing\<close> before it.
\<close>

fun scroll_slots_from :: "nat \<Rightarrow> event list \<Rightarrow> nat list" where
  "scroll_slots_from cur [] = []"
| "scroll_slots_from cur (LogProcessing i # t) = scroll_slots_from i t"
| "scroll_slots_from cur (CallScrollPage a b c # t) = cur # scroll_slots_from cur t"
| "scroll_slots_from cur (ev # t) = scroll_slots_from cur t"

definition scroll_slots :: "event list \<Rightarrow> nat list" where
  "scroll_slots t = scroll_slots_from 0 t"

fun is_scroll_call :: "event \<Rightarrow> bool" where
  "is_scroll_call (CallScrollPage a b c) = True"
| "is_scroll_call ev = False"

fun is_marker :: "event \<Rightarrow> bool" where
  "is_marker (LogProcessing i) = True"
| "is_marker (CallScrollPage a b c) = True"
| "is_marker ev = False"

definition slot_markers :: "nat \<Rightarrow> event list" where
  "slot_markers i = LogProcessing i # (if i mod 10 = 0 then [CallScrollPage 0 800 30] else [])"

text \<open>The trace of \<open>n\<close> successful scroll steps from the offset \<open>start\<close>.\<close>

definition ok_steps :: "int \<Rightarrow> int \<Rightarrow> nat \<Rightarrow> event list" where
  "ok_steps start step n =
     concat (map (\<lambda>k. [ScrollBy (start + int k * step) step, Sleep 200]) [0..<n])"

text \<open>
  The first \<open>n\<close> scroll steps from the offset \<open>cur\<close> and the driver state \<open>d\<close> all
  succeed, each followed by the sleep of 0.2 s; the result is the state after them.
\<close>

fun ok_run :: "'d env \<Rightarrow> int \<Rightarrow> int \<Rightarrow> nat \<Rightarrow> 'd \<Rightarrow> 'd option" where
  "ok_run E cur step 0 d = Some d"
| "ok_run E cur step (Suc n) d =
     (case scroll_by_amount E cur step d of
        (Inl e, d1) \<Rightarrow> None
      | (Inr u, d1) \<Rightarrow> ok_run E (cur + step) step n (time_sleep E 200 d1))"

fun is_prompt :: "event \<Rightarrow> bool" where
  "is_prompt (Prompt s) = True"
| "is_prompt ev = False"

text \<open>A call returned a table whose columns are \<open>cs\<close>, in this order.\<close>

fun has_columns :: "exn + dataframe \<Rightarrow> string list \<Rightarrow> bool" where
  "has_columns (Inr df) cs = (map fst df = cs)"
| "has_columns (Inl e) cs = False"

text \<open>A call returned a table each of whose columns has \<open>n\<close> cells.\<close>

fun has_rows :: "exn + dataframe \<Rightarrow> nat \<Rightarrow> bool" where
  "has_rows (Inr df) n = list_all (\<lambda>col. length (snd col) = n) df"
| "has_rows (Inl e) n = False"

section \<open>Pages and drivers for the concrete runs\<close>

text \<open>A browser on a page without products: every wait times out, no cookie is accepted.\<close>

definition blank_env :: "nat env" where
  "blank_env =
     \<lparr>wait_presence = (\<lambda>timeout xpath d. (Inl TimeoutException, d)),
      element_text = (\<lambda>el d. (Inr '''', d)),
      element_get_attribute = (\<lambda>el name d. (Inr None, d)),
      scroll_by_amount = (\<lambda>x y d. (Inr (), d)),
      time_sleep = (\<lambda>ms d. d),
      driver_get = (\<lambda>url d. (Inr (), d)),
      maximize_window = (\<lambda>d. (Inr (), d)),
      implicitly_wait = (\<lambda>t d. (Inr (), d)),
      wait_ready_state = (\<lambda>t d. (Inr (), d)),
      get_cookies = (\<lambda>d. (Inr [], d)),
      add_cookie = (\<lambda>cookie d. (Inl WebDriverException, d)),
      console_input = (\<lambda>prompt d. (Inr '''', d))\<rparr>"

definition world0 :: "nat world" where
  "world0 = \<lparr>dstate = 0, files = (\<lambda>path. Absent), trace = []\<rparr>"

text \<open>The page of the scenario: of the expressions A, B, C and D only B is in the DOM.\<close>

definition only_b_env :: "nat env" where
  "only_b_env =
     blank_env\<lparr>wait_presence :=
                  (\<lambda>timeout xpath d.
                     if xpath = ''B'' then (Inr 2, d) else (Inl TimeoutException, d)),
               element_get_attribute := (\<lambda>el name d. (Inr (Some ''b.png''), d))\<rparr>"

text \<open>
  A page on which every element is found, with text \<^verbatim>\<open>S/ 10\<close> and image \<^verbatim>\<open>p.png\<close>; the
  state counts the waits.
\<close>

definition full_env :: "nat env" where
  "full_env =
     blank_env\<lparr>wait_presence := (\<lambda>timeout xpath d. (Inr d, Suc d)),
               element_text := (\<lambda>el d. (Inr ''S/ 10'', d)),
               element_get_attribute := (\<lambda>el name d. (Inr (Some ''p.png''), d))\<rparr>"

text \<open>The same page, where looking up the description of slot 2 breaks the driver.\<close>

definition broken_slot_env :: "nat env" where
  "broken_slot_env =
     full_env\<lparr>wait_presence :=
                 (\<lambda>timeout xpath d.
                    if xpath = desc_xpath 2 then (Inl WebDriverException, Suc d)
                    else (Inr d, Suc d))\<rparr>"

text \<open>The same page, where the images are lazy: the elements are there, without \<^verbatim>\<open>src\<close>.\<close>

definition lazy_image_env :: "nat env" where
  "lazy_image_env = full_env\<lparr>element_get_attribute := (\<lambda>el name d. (Inr None, d))\<rparr>"

text \<open>A driver whose scroll breaks at the third step (the state counts the steps).\<close>

definition stuck_scroll_env :: "nat env" where
  "stuck_scroll_env =
     blank_env\<lparr>scroll_by_amount :=
                  (\<lambda>x y d. if d = 2 then (Inl WebDriverException, d) else (Inr (), Suc d))\<rparr>"

text \<open>A driver with one cookie in the session, which accepts no cookie.\<close>

definition session_cookie :: pyobj where
  "session_cookie = PyDict [(''name'', PyStr ''sid''), (''value'', PyStr ''42'')]"

definition cookie_env :: "nat env" where
  "cookie_env = blank_env\<lparr>get_cookies := (\<lambda>d. (Inr [session_cookie], d))\<rparr>"

text \<open>
  \<^verbatim>\<open>self.transform_to_df(*data)\<close> for \<^verbatim>\<open>data = self.scrap_ripley()\<close>: the table that
  \<^verbatim>\<open>get_data_from_pagenumber\<close> exports and returns.
\<close>

definition harvest_table :: "'d env \<Rightarrow> 'd world \<Rightarrow> exn + dataframe" where
  "harvest_table E w =
     (case fst (scrap_ripley E w) of
        Inl e \<Rightarrow> Inl e
      | Inr data \<Rightarrow>
          transform_to_df (descripciones data) (precios_regular data)
            (precios_oferta data) (imagenes data))"

text \<open>The cookie file of \<^verbatim>\<open>main\<close> with its default directory, and three contents of it.\<close>

definition cookie_file :: string where
  "cookie_file = ''cookies/ripley_cookies.pkl''"

definition garbage_world :: "nat world" where
  "garbage_world =
     world0\<lparr>files := (\<lambda>path. if path = cookie_file then Regular (Garbage [0]) else Absent)\<rparr>"

definition number_world :: "nat world" where
  "number_world =
     world0\<lparr>files :=
              (\<lambda>path. if path = cookie_file then Regular (Pickled (PyInt 5)) else Absent)\<rparr>"

definition saved_world :: "nat world" where
  "saved_world =
     world0\<lparr>files :=
              (\<lambda>path. if path = cookie_file
                       then Regular (Pickled (PyList [session_cookie, session_cookie]))
                       else Absent)\<rparr>"

text \<open>
  The page where every element is found, on a driver whose first wait breaks and whose
  later waits succeed (the state counts the waits).
\<close>

definition flaky_env :: "nat env" where
  "flaky_env =
     full_env\<lparr>wait_presence :=
                 (\<lambda>timeout xpath d.
                    if d = 0 then (Inl WebDriverException, Suc d) else (Inr d, Suc d))\<rparr>"

section \<open>Basic facts\<close>

lemma trace_emit [simp]: "trace (emit ev w) = trace w @ [ev]"
  by (simp add: emit_def)

lemma trace_sleep [simp]: "trace (sleep E ms w) = trace w @ [Sleep ms]"
  by (simp add: sleep_def)

lemma trace_find_element_safe:
  "trace (snd (find_element_safe E x t w)) = trace w"
  by (simp add: find_element_safe_def split: prod.splits sum.splits)

lemma trace_find_image_safe:
  "trace (snd (find_image_safe E xs t w)) = trace w"
  by (induction xs arbitrary: w) (simp_all split: prod.splits sum.splits)

lemma trace_lookup_fields:
  "trace (snd (lookup_fields E i w)) = trace w"
proof -
  have a: "\<And>x w r w'. find_element_safe E x 3 w = (r, w') \<Longrightarrow> trace w' = trace w"
    using trace_find_element_safe by (metis snd_conv)
  have b: "\<And>xs w r w'. find_image_safe E xs 3 w = (r, w') \<Longrightarrow> trace w' = trace w"
    using trace_find_image_safe by (metis snd_conv)
  show ?thesis
    by (auto simp: lookup_fields_def split: prod.splits sum.splits dest!: a b)
qed

lemma upt_0_2: "[0..<2] = [0, Suc 0]"
  by (simp add: numeral_2_eq_2)

section \<open>Locator strategy: the first expression that matches wins\<close>

lemma find_image_skip:
  "skip_absent E t ps (dstate w) = Some d1 \<Longrightarrow>
   find_image_safe E (ps @ rest) t w = find_image_safe E rest t (w\<lparr>dstate := d1\<rparr>)"
  by (induction ps arbitrary: w) (auto split: prod.splits sum.splits if_splits)

text \<open>
  C3. When the expressions before \<open>x\<close> all end in a timeout (or no such element), \<open>x\<close>
  matches an element and the element's \<^verbatim>\<open>src\<close> is read as \<open>v\<close>, then
  \<^verbatim>\<open>_find_image_safe\<close> returns \<open>v\<close>, whatever the expressions after \<open>x\<close> would match.
  When every expression ends in a timeout, it returns the empty string.
\<close>

theorem find_image_first_match:
  "(skip_absent E t ps (dstate w) = Some d1 \<and>
    wait_presence E t x d1 = (Inr el, d2) \<and>
    element_get_attribute E el ''src'' d2 = (Inr v, d3)
      \<longrightarrow> find_image_safe E (ps @ x # rest) t w = (Inr v, w\<lparr>dstate := d3\<rparr>))
   \<and> (skip_absent E t xs (dstate w) = Some d4
      \<longrightarrow> find_image_safe E xs t w = (Inr (Some ''''), w\<lparr>dstate := d4\<rparr>))"
  using find_image_skip[of E t ps w d1 "x # rest"] find_image_skip[of E t xs w d4 "[]"]
  by auto

theorem find_image_first_match_witness:
  "find_image_safe only_b_env [''A'', ''B'', ''C'', ''D''] 3 world0 = (Inr (Some ''b.png''), world0)
   \<and> find_image_safe only_b_env [''A'', ''C'', ''D''] 3 world0 = (Inr (Some ''''), world0)"
proof -
  have a: "skip_absent only_b_env 3 [''A''] (dstate world0) = Some 0"
    by (simp add: only_b_env_def blank_env_def world0_def is_absence_def)
  have b: "wait_presence only_b_env 3 ''B'' 0 = (Inr 2, 0)"
    by (simp add: only_b_env_def blank_env_def)
  have c: "element_get_attribute only_b_env 2 ''src'' 0 = (Inr (Some ''b.png''), 0)"
    by (simp add: only_b_env_def blank_env_def)
  have d: "skip_absent only_b_env 3 [''A'', ''C'', ''D''] (dstate world0) = Some 0"
    by (simp add: only_b_env_def blank_env_def world0_def is_absence_def)
  have e: "world0\<lparr>dstate := 0\<rparr> = world0"
    by (simp add: world0_def)
  show ?thesis
    using find_image_first_match[where E = only_b_env and t = 3 and ps = "[''A'']"
            and w = world0 and ?d1.0 = 0 and x = "''B''" and el = 2 and ?d2.0 = 0
            and v = "Some ''b.png''" and ?d3.0 = 0 and rest = "[''C'', ''D'']"
            and xs = "[''A'', ''C'', ''D'']" and ?d4.0 = 0] a b c d e
    by simp
qed

section \<open>Listing harvester: one record for every slot\<close>

lemma lists_append_empty [simp]:
  "lists_append acc empty_lists = acc" "lists_append empty_lists acc = acc"
  by (simp_all add: lists_append_def empty_lists_def)

lemma lists_append_assoc:
  "lists_append (lists_append a b) c = lists_append a (lists_append b c)"
  by (simp add: lists_append_def)

lemma append_record_alt:
  "append_record acc d r ofr im = lists_append acc (append_record empty_lists d r ofr im)"
  by (simp add: append_record_def lists_append_def empty_lists_def)

text \<open>The loops only append: what they add does not depend on what is already there.\<close>

lemma retry_loop_acc:
  "retry_loop E i m rs acc w =
     (lists_append acc (fst (retry_loop E i m rs empty_lists w)),
      snd (retry_loop E i m rs empty_lists w))"
proof (induction rs arbitrary: acc w)
  case Nil
  show ?case by simp
next
  case (Cons r rs)
  have step: "retry_loop E i m rs (lists_append a b) w' =
      (lists_append a (fst (retry_loop E i m rs b w')), snd (retry_loop E i m rs b w'))"
    for a b w'
    using Cons.IH[of "lists_append a b" w'] Cons.IH[of b w']
    by (simp add: lists_append_assoc)
  show ?case
  proof (cases "lookup_fields E i w")
    case (Pair res w1)
    show ?thesis
    proof (cases res)
      case (Inr t)
      then show ?thesis using Pair
        by (cases t) (simp add: append_record_alt[of acc])
    next
      case (Inl e)
      show ?thesis
      proof (cases "r = m - 1")
        case True
        then show ?thesis using Pair Inl
          step[of acc "append_record empty_lists (Some '''') (Some '''') (Some '''') (Some '''')"]
          by (simp add: append_record_alt[of acc])
      next
        case False
        then show ?thesis using Pair Inl Cons.IH[of acc] by simp
      qed
    qed
  qed
qed

lemma process_slot_acc:
  "process_slot E i acc w =
     (lists_append acc (fst (process_slot E i empty_lists w)),
      snd (process_slot E i empty_lists w))"
  unfolding process_slot_def
  using retry_loop_acc[of E i 2 "[0..<2]" acc "emit (LogProcessing i) w"]
  by (simp split: prod.splits)

lemma harvest_loop_acc:
  "harvest_loop E slots acc w =
     (lists_append acc (fst (harvest_loop E slots empty_lists w)),
      snd (harvest_loop E slots empty_lists w))"
proof (induction slots arbitrary: acc w)
  case Nil
  show ?case by simp
next
  case (Cons i slots)
  obtain a1 w1 where p: "process_slot E i empty_lists w = (a1, w1)"
    by (cases "process_slot E i empty_lists w")
  have q: "process_slot E i acc w = (lists_append acc a1, w1)"
    using process_slot_acc[of E i acc w] p by simp
  show ?case
    using p q Cons.IH[of "lists_append acc a1" w1] Cons.IH[of a1 w1]
    by (simp add: lists_append_assoc)
qed

lemma harvest_loop_append:
  "harvest_loop E (xs @ ys) acc w =
     harvest_loop E ys (fst (harvest_loop E xs acc w)) (snd (harvest_loop E xs acc w))"
  by (induction xs arbitrary: acc w) (simp_all split: prod.splits)

lemma aligned_empty: "aligned empty_lists 0"
  by (simp add: aligned_def empty_lists_def)

lemma aligned_append_record:
  "aligned acc n \<Longrightarrow> aligned (append_record acc d r ofr im) (Suc n)"
  by (simp add: aligned_def append_record_def)

lemma aligned_lists_append:
  "aligned a n \<Longrightarrow> aligned b m \<Longrightarrow> aligned (lists_append a b) (n + m)"
  by (simp add: aligned_def lists_append_def)

lemma retry_loop_one:
  "aligned acc n \<Longrightarrow> aligned (fst (retry_loop E i 2 [0..<2] acc w)) (Suc n)"
  by (auto simp: upt_0_2 aligned_append_record split: prod.splits sum.splits)

lemma process_slot_one:
  "aligned acc n \<Longrightarrow> aligned (fst (process_slot E i acc w)) (Suc n)"
  unfolding process_slot_def
  using retry_loop_one[of acc n E i "emit (LogProcessing i) w"]
  by (auto split: prod.splits)

lemma harvest_loop_aligned:
  "aligned acc n \<Longrightarrow> aligned (fst (harvest_loop E slots acc w)) (n + length slots)"
proof (induction slots arbitrary: acc w n)
  case Nil
  then show ?case by simp
next
  case (Cons i slots)
  obtain a1 w1 where p: "process_slot E i acc w = (a1, w1)"
    by (cases "process_slot E i acc w")
  have "aligned a1 (Suc n)"
    using process_slot_one[OF Cons.prems, of E i w] p by simp
  from Cons.IH[OF this, of w1] p show ?case by simp
qed

lemma harvest_upto_aligned: "aligned (fst (harvest_loop E [1..<Suc n] empty_lists w)) n"
  using harvest_loop_aligned[OF aligned_empty, of E "[1..<Suc n]" w] by (simp del: upt_Suc)

lemma row_lists_append_left:
  "aligned a n \<Longrightarrow> k < n \<Longrightarrow> row (lists_append a b) k = row a k"
  by (simp add: row_def lists_append_def aligned_def nth_append)

lemma row_lists_append_right:
  "aligned a n \<Longrightarrow> row (lists_append a b) (n + k) = row b k"
  by (auto simp add: row_def lists_append_def aligned_def nth_append)

lemma upt_split_at: "k < N \<Longrightarrow> [1..<Suc N] = [1..<Suc k] @ Suc k # [Suc (Suc k)..<Suc N]"
proof -
  assume a: "k < N"
  have "[1..<Suc N] = [1..<Suc k] @ [Suc k..<Suc N]"
    using a upt_add_eq_append[of 1 "Suc k" "N - k"] by (simp del: upt_Suc)
  also have "[Suc k..<Suc N] = Suc k # [Suc (Suc k)..<Suc N]"
    using a by (simp add: upt_conv_Cons del: upt_Suc)
  finally show ?thesis .
qed

lemma harvest_row:
  assumes "k < N"
  shows "row (fst (harvest_loop E [1..<Suc N] empty_lists w)) k =
         row (fst (process_slot E (Suc k) empty_lists
                     (snd (harvest_loop E [1..<Suc k] empty_lists w)))) 0"
proof -
  let ?pre = "harvest_loop E [1..<Suc k] empty_lists w"
  let ?one = "process_slot E (Suc k) empty_lists (snd ?pre)"
  let ?rest = "harvest_loop E [Suc (Suc k)..<Suc N] empty_lists (snd ?one)"
  have a_pre: "aligned (fst ?pre) k"
    by (rule harvest_upto_aligned)
  have a_one: "aligned (fst ?one) (Suc 0)"
    by (rule process_slot_one[OF aligned_empty])
  have one: "process_slot E (Suc k) (fst ?pre) (snd ?pre) =
               (lists_append (fst ?pre) (fst ?one), snd ?one)"
    using process_slot_acc[of E "Suc k" "fst ?pre" "snd ?pre"] by (simp del: upt_Suc)
  have "harvest_loop E [1..<Suc N] empty_lists w =
          harvest_loop E (Suc k # [Suc (Suc k)..<Suc N]) (fst ?pre) (snd ?pre)"
    using harvest_loop_append[of E "[1..<Suc k]" "Suc k # [Suc (Suc k)..<Suc N]" empty_lists w]
      upt_split_at[OF assms] by (simp del: upt_Suc)
  also have "\<dots> =
      harvest_loop E [Suc (Suc k)..<Suc N] (lists_append (fst ?pre) (fst ?one)) (snd ?one)"
    using one by (simp del: upt_Suc)
  finally have "fst (harvest_loop E [1..<Suc N] empty_lists w) =
      lists_append (fst ?pre) (lists_append (fst ?one) (fst ?rest))"
    using harvest_loop_acc[of E "[Suc (Suc k)..<Suc N]"
            "lists_append (fst ?pre) (fst ?one)" "snd ?one"]
    by (simp add: lists_append_assoc del: upt_Suc)
  then have "row (fst (harvest_loop E [1..<Suc N] empty_lists w)) k =
      row (lists_append (fst ?one) (fst ?rest)) 0"
    using row_lists_append_right[OF a_pre, of "lists_append (fst ?one) (fst ?rest)" 0]
    by (simp del: upt_Suc)
  also have "\<dots> = row (fst ?one) 0"
    using row_lists_append_left[OF a_one, of 0 "fst ?rest"] by (simp del: upt_Suc)
  finally show ?thesis .
qed

lemma retry_loop_two_attempts:
  "retry_loop E i 2 [0..<2] acc w =
     (case lookup_fields E i w of
        (Inr (d, r, ofr, im), w1) \<Rightarrow> (append_record acc (Some d) (Some r) (Some ofr) im, w1)
      | (Inl e1, w1) \<Rightarrow>
          (case lookup_fields E i (sleep E 500 w1) of
             (Inr (d, r, ofr, im), w2) \<Rightarrow>
               (append_record acc (Some d) (Some r) (Some ofr) im, w2)
           | (Inl e2, w2) \<Rightarrow>
               (append_record acc (Some '''') (Some '''') (Some '''') (Some ''''),
                emit (LogSlotError i e2) w2)))"
  by (simp add: upt_0_2 split: prod.splits sum.splits)

lemma failed_slot_step:
  assumes "fst (first_attempt E i w1) = Inl e1"
    and "fst (second_attempt E i w1) = Inl e2"
  shows "retry_loop E i 2 [0..<2] acc (emit (LogProcessing i) w1) =
           (append_record acc (Some '''') (Some '''') (Some '''') (Some ''''),
            emit (LogSlotError i e2) (snd (second_attempt E i w1)))"
proof -
  obtain wa where a: "lookup_fields E i (emit (LogProcessing i) w1) = (Inl e1, wa)"
    using assms(1) by (cases "lookup_fields E i (emit (LogProcessing i) w1)")
      (simp add: first_attempt_def)
  then have wa: "snd (first_attempt E i w1) = wa"
    by (simp add: first_attempt_def)
  obtain wb where b: "lookup_fields E i (sleep E 500 wa) = (Inl e2, wb)"
    using assms(2) wa by (cases "lookup_fields E i (sleep E 500 wa)")
      (simp add: second_attempt_def)
  then have wb: "snd (second_attempt E i w1) = wb"
    using wa by (simp add: second_attempt_def)
  show ?thesis
    using a b wb by (simp add: retry_loop_two_attempts)
qed

lemma failed_slot_row:
  assumes "isl (fst (first_attempt E i w1))" and "isl (fst (second_attempt E i w1))"
  shows "row (fst (process_slot E i empty_lists w1)) 0 = empty_record"
proof -
  obtain e1 where a: "fst (first_attempt E i w1) = Inl e1"
    using assms(1) by (cases "fst (first_attempt E i w1)") simp_all
  obtain e2 where b: "fst (second_attempt E i w1) = Inl e2"
    using assms(2) by (cases "fst (second_attempt E i w1)") simp_all
  have "fst (process_slot E i empty_lists w1) =
          append_record empty_lists (Some '''') (Some '''') (Some '''') (Some '''')"
    using failed_slot_step[OF a b, of empty_lists] by (simp add: process_slot_def)
  then show ?thesis
    by (simp add: row_def append_record_def empty_lists_def empty_record_def)
qed

text \<open>
  C1. For every \<open>N\<close>, the harvest loop over the slots 1 to \<open>N\<close> returns four lists of
  length \<open>N\<close>, whatever the lookups do; the record at index \<open>k\<close> is the one that the
  iteration for slot \<open>k + 1\<close> appends, run in the world that the slots before it left;
  when both attempts for that slot fail, it is the record of four empty strings; and
  \<^verbatim>\<open>scrap_ripley\<close> returns, without an exception, the result of this loop for \<open>N = 49\<close>.
\<close>

theorem harvest_one_record_per_slot:
  "aligned (fst (harvest_loop E [1..<Suc N] empty_lists w)) N \<and>
   (\<forall>k<N. row (fst (harvest_loop E [1..<Suc N] empty_lists w)) k =
           row (fst (process_slot E (Suc k) empty_lists
                       (snd (harvest_loop E [1..<Suc k] empty_lists w)))) 0) \<and>
   (\<forall>k<N. isl (fst (first_attempt E (Suc k)
                       (snd (harvest_loop E [1..<Suc k] empty_lists w)))) \<and>
          isl (fst (second_attempt E (Suc k)
                       (snd (harvest_loop E [1..<Suc k] empty_lists w))))
          \<longrightarrow> row (fst (harvest_loop E [1..<Suc N] empty_lists w)) k = empty_record) \<and>
   fst (scrap_ripley E w) = Inr (fst (harvest_loop E [1..<Suc 49] empty_lists w))"
proof -
  have a: "aligned (fst (harvest_loop E [1..<Suc N] empty_lists w)) N"
    by (rule harvest_upto_aligned)
  have b: "fst (scrap_ripley E w) = Inr (fst (harvest_loop E [1..<Suc 49] empty_lists w))"
    by (simp add: scrap_ripley_def del: upt_Suc split: prod.splits)
  have c: "\<forall>k<N. row (fst (harvest_loop E [1..<Suc N] empty_lists w)) k =
           row (fst (process_slot E (Suc k) empty_lists
                       (snd (harvest_loop E [1..<Suc k] empty_lists w)))) 0"
    using harvest_row[of _ N E w] by blast
  have d: "\<forall>k<N. isl (fst (first_attempt E (Suc k)
                       (snd (harvest_loop E [1..<Suc k] empty_lists w)))) \<and>
          isl (fst (second_attempt E (Suc k)
                       (snd (harvest_loop E [1..<Suc k] empty_lists w))))
          \<longrightarrow> row (fst (harvest_loop E [1..<Suc N] empty_lists w)) k = empty_record"
  proof (intro allI impI)
    fix k
    assume k: "k < N"
      and f: "isl (fst (first_attempt E (Suc k)
                       (snd (harvest_loop E [1..<Suc k] empty_lists w)))) \<and>
              isl (fst (second_attempt E (Suc k)
                       (snd (harvest_loop E [1..<Suc k] empty_lists w))))"
    have "row (fst (harvest_loop E [1..<Suc N] empty_lists w)) k =
          row (fst (process_slot E (Suc k) empty_lists
                      (snd (harvest_loop E [1..<Suc k] empty_lists w)))) 0"
      by (rule harvest_row[OF k])
    also have "\<dots> = empty_record"
      using f by (intro failed_slot_row) blast+
    finally show "row (fst (harvest_loop E [1..<Suc N] empty_lists w)) k = empty_record" .
  qed
  from a b c d show ?thesis by blast
qed

lemma upt_1_4: "[1..<Suc 3] = [1, 2, 3]"
  by (simp add: upt_rec)

lemmas run_defs = process_slot_def lookup_fields_def find_element_safe_def
  blank_env_def world0_def full_env_def broken_slot_env_def lazy_image_env_def
  stuck_scroll_env_def flaky_env_def cookie_env_def session_cookie_def
  img_xpaths_def image_xpaths_def is_absence_def append_record_def empty_lists_def
  emit_def sleep_def desc_xpath_def price_reg_xpath_def price_off_xpath_def
  product_xpath_def str_nat.simps upt_0_2 first_attempt_def second_attempt_def
  scroll_page_def row_def aligned_def empty_record_def lists_append_def

theorem harvest_one_record_per_slot_witness:
  "aligned (fst (harvest_loop broken_slot_env [1..<Suc 3] empty_lists world0)) 3 \<and>
   row (fst (harvest_loop broken_slot_env [1..<Suc 3] empty_lists world0)) 1 =
     row (fst (process_slot broken_slot_env (Suc 1) empty_lists
                 (snd (harvest_loop broken_slot_env [1..<Suc 1] empty_lists world0)))) 0 \<and>
   row (fst (harvest_loop broken_slot_env [1..<Suc 3] empty_lists world0)) 1 = empty_record \<and>
   fst (harvest_loop broken_slot_env [1..<Suc 3] empty_lists world0) =
     \<lparr>descripciones = [Some ''S/ 10'', Some '''', Some ''S/ 10''],
      precios_regular = [Some ''S/ 10'', Some '''', Some ''S/ 10''],
      precios_oferta = [Some ''S/ 10'', Some '''', Some ''S/ 10''],
      imagenes = [Some ''p.png'', Some '''', Some ''p.png'']\<rparr>"
proof -
  have k: "(1::nat) < 3" by simp
  have f: "isl (fst (first_attempt broken_slot_env (Suc 1)
                  (snd (harvest_loop broken_slot_env [1..<Suc 1] empty_lists world0)))) \<and>
           isl (fst (second_attempt broken_slot_env (Suc 1)
                  (snd (harvest_loop broken_slot_env [1..<Suc 1] empty_lists world0))))"
    by (simp add: run_defs)
  have v: "fst (harvest_loop broken_slot_env [1..<Suc 3] empty_lists world0) =
     \<lparr>descripciones = [Some ''S/ 10'', Some '''', Some ''S/ 10''],
      precios_regular = [Some ''S/ 10'', Some '''', Some ''S/ 10''],
      precios_oferta = [Some ''S/ 10'', Some '''', Some ''S/ 10''],
      imagenes = [Some ''p.png'', Some '''', Some ''p.png'']\<rparr>"
    unfolding upt_1_4 by (simp add: run_defs)
  from harvest_one_record_per_slot[of broken_slot_env 3 world0] k f v
  show ?thesis by blast
qed

section \<open>Listing harvester: bounded retries and the empty record\<close>

text \<open>
  One iteration of the slot loop, unrolled: the log line, a first attempt, after its
  failure a sleep of half a second and a second attempt, after the failure of both the
  empty record and the error line, and then the scroll when the index is a multiple of 10.
\<close>

lemma process_slot_two_attempts:
  "process_slot E i acc w =
     (case (case lookup_fields E i (emit (LogProcessing i) w) of
              (Inr (d, r, ofr, im), wa) \<Rightarrow>
                (append_record acc (Some d) (Some r) (Some ofr) im, wa)
            | (Inl ea, wa) \<Rightarrow>
                (case lookup_fields E i (sleep E 500 wa) of
                   (Inr (d, r, ofr, im), wb) \<Rightarrow>
                     (append_record acc (Some d) (Some r) (Some ofr) im, wb)
                 | (Inl eb, wb) \<Rightarrow>
                     (append_record acc (Some '''') (Some '''') (Some '''') (Some ''''),
                      emit (LogSlotError i eb) wb))) of
        (acc1, w1) \<Rightarrow>
          (acc1, if i mod 10 = 0 then snd (scroll_page E 0 800 30 w1) else w1))"
  by (simp add: process_slot_def retry_loop_two_attempts split: prod.splits sum.splits)

lemma retried_slot_step:
  assumes "fst (first_attempt E i w1) = Inl e1"
    and "fst (second_attempt E i w1) = Inr (d, r, ofr, im)"
  shows "retry_loop E i 2 [0..<2] acc (emit (LogProcessing i) w1) =
           (append_record acc (Some d) (Some r) (Some ofr) im, snd (second_attempt E i w1))"
proof -
  obtain wa where a: "lookup_fields E i (emit (LogProcessing i) w1) = (Inl e1, wa)"
    using assms(1) by (cases "lookup_fields E i (emit (LogProcessing i) w1)")
      (simp add: first_attempt_def)
  then have wa: "snd (first_attempt E i w1) = wa"
    by (simp add: first_attempt_def)
  obtain wb where b: "lookup_fields E i (sleep E 500 wa) = (Inr (d, r, ofr, im), wb)"
    using assms(2) wa by (cases "lookup_fields E i (sleep E 500 wa)")
      (simp add: second_attempt_def)
  then have wb: "snd (second_attempt E i w1) = wb"
    using wa by (simp add: second_attempt_def)
  show ?thesis
    using a b wb by (simp add: retry_loop_two_attempts)
qed

text \<open>
  A harvest over \<open>pre @ i # post\<close> in which slot \<open>i\<close> appends the record \<open>(a, b, c, d)\<close>:
  the records of the other slots are those of the harvests over \<open>pre\<close> and over \<open>post\<close>.
\<close>

lemma harvest_around_slot:
  assumes "harvest_loop E pre empty_lists w = (acc1, w1)"
    and "fst (process_slot E i acc1 w1) = append_record acc1 a b c d"
    and "harvest_loop E post empty_lists (snd (process_slot E i acc1 w1)) = (acc3, w3)"
  shows "harvest_loop E (pre @ i # post) empty_lists w =
           (lists_append acc1 (lists_append (append_record empty_lists a b c d) acc3), w3)"
    and "aligned (fst (harvest_loop E (pre @ i # post) empty_lists w))
           (length pre + 1 + length post)"
    and "row (fst (harvest_loop E (pre @ i # post) empty_lists w)) (length pre) = (a, b, c, d)"
    and "\<forall>k<length pre.
           row (fst (harvest_loop E (pre @ i # post) empty_lists w)) k = row acc1 k"
    and "\<forall>k<length post.
           row (fst (harvest_loop E (pre @ i # post) empty_lists w)) (length pre + 1 + k) =
             row acc3 k"
proof -
  let ?e = "append_record empty_lists a b c d"
  let ?res = "harvest_loop E (pre @ i # post) empty_lists w"
  have "?res = harvest_loop E (i # post) acc1 w1"
    using harvest_loop_append[of E pre "i # post" empty_lists w] assms(1) by simp
  also have "\<dots> = harvest_loop E post (fst (process_slot E i acc1 w1))
                      (snd (process_slot E i acc1 w1))"
    by (simp split: prod.splits)
  also have "\<dots> = (lists_append (lists_append acc1 ?e) acc3, w3)"
    using harvest_loop_acc[of E post "fst (process_slot E i acc1 w1)"
            "snd (process_slot E i acc1 w1)"] assms(3) assms(2)
          append_record_alt[of acc1 a b c d]
    by simp
  finally have res: "?res = (lists_append acc1 (lists_append ?e acc3), w3)"
    by (simp add: lists_append_assoc)
  then show "?res = (lists_append acc1 (lists_append ?e acc3), w3)" .
  have a1: "aligned acc1 (length pre)"
    using harvest_loop_aligned[OF aligned_empty, of E pre w] assms(1) by simp
  have a2: "aligned ?e (Suc 0)"
    by (rule aligned_append_record[OF aligned_empty])
  have a3: "aligned acc3 (length post)"
    using harvest_loop_aligned[OF aligned_empty, of E post "snd (process_slot E i acc1 w1)"]
      assms(3) by simp
  have a23: "aligned (lists_append ?e acc3) (Suc 0 + length post)"
    by (rule aligned_lists_append[OF a2 a3])
  show "aligned (fst ?res) (length pre + 1 + length post)"
    using res aligned_lists_append[OF a1 a23] by simp
  show "row (fst ?res) (length pre) = (a, b, c, d)"
  proof -
    have "row (fst ?res) (length pre) = row (lists_append ?e acc3) 0"
      using res row_lists_append_right[OF a1, of "lists_append ?e acc3" 0] by simp
    also have "\<dots> = row ?e 0"
      using row_lists_append_left[OF a2, of 0 acc3] by simp
    also have "\<dots> = (a, b, c, d)"
      by (simp add: row_def append_record_def empty_lists_def)
    finally show ?thesis .
  qed
  show "\<forall>k<length pre. row (fst ?res) k = row acc1 k"
    using res row_lists_append_left[OF a1] by simp
  show "\<forall>k<length post. row (fst ?res) (length pre + 1 + k) = row acc3 k"
  proof (intro allI impI)
    fix k
    have "row (fst ?res) (length pre + (Suc 0 + k)) = row (lists_append ?e acc3) (Suc 0 + k)"
      using res row_lists_append_right[OF a1, of "lists_append ?e acc3" "Suc 0 + k"]
      by simp
    also have "\<dots> = row acc3 k"
      by (rule row_lists_append_right[OF a2])
    finally show "row (fst ?res) (length pre + 1 + k) = row acc3 k" by simp
  qed
qed

lemma retried_slot_harvest:
  assumes "harvest_loop E pre empty_lists w = (acc1, w1)"
    and "fst (first_attempt E i w1) = Inl e1"
    and "fst (second_attempt E i w1) = Inr (d, r, ofr, im)"
    and "harvest_loop E post empty_lists (snd (process_slot E i acc1 w1)) = (acc3, w3)"
  shows "trace (snd (retry_loop E i 2 [0..<2] acc1 (emit (LogProcessing i) w1))) =
           trace w1 @ [LogProcessing i, Sleep 500] \<and>
         fst (process_slot E i acc1 w1) =
           append_record acc1 (Some d) (Some r) (Some ofr) im \<and>
         harvest_loop E (pre @ i # post) empty_lists w =
           (lists_append acc1
              (lists_append (append_record empty_lists (Some d) (Some r) (Some ofr) im) acc3),
            w3) \<and>
         aligned (fst (harvest_loop E (pre @ i # post) empty_lists w))
           (length pre + 1 + length post) \<and>
         row (fst (harvest_loop E (pre @ i # post) empty_lists w)) (length pre) =
           (Some d, Some r, Some ofr, im)"
proof -
  have retry: "retry_loop E i 2 [0..<2] acc1 (emit (LogProcessing i) w1) =
      (append_record acc1 (Some d) (Some r) (Some ofr) im, snd (second_attempt E i w1))"
    by (rule retried_slot_step[OF assms(2) assms(3)])
  have tr: "trace (snd (retry_loop E i 2 [0..<2] acc1 (emit (LogProcessing i) w1))) =
      trace w1 @ [LogProcessing i, Sleep 500]"
    using retry by (simp add: second_attempt_def first_attempt_def trace_lookup_fields)
  have slot: "fst (process_slot E i acc1 w1) =
      append_record acc1 (Some d) (Some r) (Some ofr) im"
    using retry by (simp add: process_slot_def)
  note h = harvest_around_slot[OF assms(1) slot assms(4)]
  from tr slot h(1) h(2) h(3) show ?thesis by blast
qed

lemma failed_slot_harvest:
  assumes "harvest_loop E pre empty_lists w = (acc1, w1)"
    and "fst (first_attempt E i w1) = Inl e1"
    and "fst (second_attempt E i w1) = Inl e2"
    and "harvest_loop E post empty_lists (snd (process_slot E i acc1 w1)) = (acc3, w3)"
  shows "trace (snd (retry_loop E i 2 [0..<2] acc1 (emit (LogProcessing i) w1))) =
           trace w1 @ [LogProcessing i, Sleep 500, LogSlotError i e2] \<and>
         fst (process_slot E i acc1 w1) =
           append_record acc1 (Some '''') (Some '''') (Some '''') (Some '''') \<and>
         harvest_loop E (pre @ i # post) empty_lists w =
           (lists_append acc1
              (lists_append
                 (append_record empty_lists (Some '''') (Some '''') (Some '''') (Some '''')) acc3),
            w3) \<and>
         aligned (fst (harvest_loop E (pre @ i # post) empty_lists w))
           (length pre + 1 + length post) \<and>
         row (fst (harvest_loop E (pre @ i # post) empty_lists w)) (length pre) =
           empty_record \<and>
         (\<forall>k<length pre.
            row (fst (harvest_loop E (pre @ i # post) empty_lists w)) k = row acc1 k) \<and>
         (\<forall>k<length post.
            row (fst (harvest_loop E (pre @ i # post) empty_lists w)) (length pre + 1 + k) =
              row acc3 k)"
proof -
  have retry: "retry_loop E i 2 [0..<2] acc1 (emit (LogProcessing i) w1) =
      (append_record acc1 (Some '''') (Some '''') (Some '''') (Some ''''),
       emit (LogSlotError i e2) (snd (second_attempt E i w1)))"
    by (rule failed_slot_step[OF assms(2) assms(3)])
  have tr: "trace (snd (retry_loop E i 2 [0..<2] acc1 (emit (LogProcessing i) w1))) =
      trace w1 @ [LogProcessing i, Sleep 500, LogSlotError i e2]"
    using retry by (simp add: second_attempt_def first_attempt_def trace_lookup_fields)
  have slot: "fst (process_slot E i acc1 w1) =
      append_record acc1 (Some '''') (Some '''') (Some '''') (Some '''')"
    using retry by (simp add: process_slot_def)
  note h = harvest_around_slot[OF assms(1) slot assms(4)]
  have mid: "row (fst (harvest_loop E (pre @ i # post) empty_lists w)) (length pre) =
               empty_record"
    using h(3) by (simp add: empty_record_def)
  from tr slot h(1) h(2) mid h(4) h(5) show ?thesis by blast
qed

text \<open>
  C2. Every iteration of the slot loop makes at most two attempts, for every page and
  driver: the record of the first attempt that succeeds is appended; after a failed first
  attempt the loop sleeps half a second and tries again; after a failed second attempt it
  appends the record of four empty strings (the first two conjuncts: the retry loop, and
  the whole iteration with its log line and its scroll). In a harvest over
  \<open>pre @ i # post\<close>, when the first attempt for slot \<open>i\<close> fails and the second succeeds,
  the trace of the slot is the log line and one sleep and the record of the second attempt
  is the one of slot \<open>i\<close>; when both attempts fail, the trace is the log line, one sleep and
  the error, the record of slot \<open>i\<close> is empty, the records before it are those of the
  harvest over \<open>pre\<close>, and the records after it are those of the harvest over \<open>post\<close> from
  the world that slot \<open>i\<close> left. In both cases there is one record for every slot.
\<close>

theorem failed_slot_recorded_empty:
  "retry_loop E i 2 [0..<2] acc w =
     (case lookup_fields E i w of
        (Inr (d, r, ofr, im), wa) \<Rightarrow>
          (append_record acc (Some d) (Some r) (Some ofr) im, wa)
      | (Inl ea, wa) \<Rightarrow>
          (case lookup_fields E i (sleep E 500 wa) of
             (Inr (d, r, ofr, im), wb) \<Rightarrow>
               (append_record acc (Some d) (Some r) (Some ofr) im, wb)
           | (Inl eb, wb) \<Rightarrow>
               (append_record acc (Some '''') (Some '''') (Some '''') (Some ''''),
                emit (LogSlotError i eb) wb))) \<and>
   process_slot E i acc w =
     (case (case lookup_fields E i (emit (LogProcessing i) w) of
              (Inr (d, r, ofr, im), wa) \<Rightarrow>
                (append_record acc (Some d) (Some r) (Some ofr) im, wa)
            | (Inl ea, wa) \<Rightarrow>
                (case lookup_fields E i (sleep E 500 wa) of
                   (Inr (d, r, ofr, im), wb) \<Rightarrow>
                     (append_record acc (Some d) (Some r) (Some ofr) im, wb)
                 | (Inl eb, wb) \<Rightarrow>
                     (append_record acc (Some '''') (Some '''') (Some '''') (Some ''''),
                      emit (LogSlotError i eb) wb))) of
        (acc1, w1) \<Rightarrow>
          (acc1, if i mod 10 = 0 then snd (scroll_page E 0 800 30 w1) else w1)) \<and>
   (harvest_loop E pre empty_lists w0 = (acc1, w1) \<and>
    fst (first_attempt E i w1) = Inl e1 \<and>
    fst (second_attempt E i w1) = Inr (d, r, ofr, im) \<and>
    harvest_loop E post empty_lists (snd (process_slot E i acc1 w1)) = (acc3, w3)
      \<longrightarrow>
    trace (snd (retry_loop E i 2 [0..<2] acc1 (emit (LogProcessing i) w1))) =
      trace w1 @ [LogProcessing i, Sleep 500] \<and>
    fst (process_slot E i acc1 w1) = append_record acc1 (Some d) (Some r) (Some ofr) im \<and>
    harvest_loop E (pre @ i # post) empty_lists w0 =
      (lists_append acc1
         (lists_append (append_record empty_lists (Some d) (Some r) (Some ofr) im) acc3),
       w3) \<and>
    aligned (fst (harvest_loop E (pre @ i # post) empty_lists w0))
      (length pre + 1 + length post) \<and>
    row (fst (harvest_loop E (pre @ i # post) empty_lists w0)) (length pre) =
      (Some d, Some r, Some ofr, im)) \<and>
   (harvest_loop E pre empty_lists w0 = (acc1, w1) \<and>
    fst (first_attempt E i w1) = Inl e1 \<and>
    fst (second_attempt E i w1) = Inl e2 \<and>
    harvest_loop E post empty_lists (snd (process_slot E i acc1 w1)) = (acc3, w3)
      \<longrightarrow>
    trace (snd (retry_loop E i 2 [0..<2] acc1 (emit (LogProcessing i) w1))) =
      trace w1 @ [LogProcessing i, Sleep 500, LogSlotError i e2] \<and>
    fst (process_slot E i acc1 w1) =
      append_record acc1 (Some '''') (Some '''') (Some '''') (Some '''') \<and>
    harvest_loop E (pre @ i # post) empty_lists w0 =
      (lists_append acc1
         (lists_append
            (append_record empty_lists (Some '''') (Some '''') (Some '''') (Some '''')) acc3),
       w3) \<and>
    aligned (fst (harvest_loop E (pre @ i # post) empty_lists w0))
      (length pre + 1 + length post) \<and>
    row (fst (harvest_loop E (pre @ i # post) empty_lists w0)) (length pre) = empty_record \<and>
    (\<forall>k<length pre.
       row (fst (harvest_loop E (pre @ i # post) empty_lists w0)) k = row acc1 k) \<and>
    (\<forall>k<length post.
       row (fst (harvest_loop E (pre @ i # post) empty_lists w0)) (length pre + 1 + k) =
         row acc3 k))"
  apply (rule conjI, rule retry_loop_two_attempts)
  apply (rule conjI, rule process_slot_two_attempts)
  apply (rule conjI)
   apply (rule impI, elim conjE, rule retried_slot_harvest; assumption)
  apply (rule impI, elim conjE, rule failed_slot_harvest; assumption)
  done

theorem failed_slot_recorded_empty_witness:
  "harvest_loop broken_slot_env ([1] @ 2 # [3]) empty_lists world0 =
     (\<lparr>descripciones = [Some ''S/ 10'', Some '''', Some ''S/ 10''],
       precios_regular = [Some ''S/ 10'', Some '''', Some ''S/ 10''],
       precios_oferta = [Some ''S/ 10'', Some '''', Some ''S/ 10''],
       imagenes = [Some ''p.png'', Some '''', Some ''p.png'']\<rparr>,
      \<lparr>dstate = 10, files = (\<lambda>path. Absent),
       trace = [LogProcessing 1, LogProcessing 2, Sleep 500,
                LogSlotError 2 WebDriverException, LogProcessing 3]\<rparr>)
   \<and> row (fst (harvest_loop broken_slot_env ([1] @ 2 # [3]) empty_lists world0)) (length [1::nat])
       = empty_record
   \<and> trace (snd (retry_loop flaky_env 1 2 [0..<2] empty_lists (emit (LogProcessing 1) world0))) =
       trace world0 @ [LogProcessing 1, Sleep 500]
   \<and> row (fst (harvest_loop flaky_env ([] @ 1 # [2]) empty_lists world0))
         (length ([] :: nat list)) =
       (Some ''S/ 10'', Some ''S/ 10'', Some ''S/ 10'', Some ''p.png'')"
proof -
  let ?acc1 = "\<lparr>descripciones = [Some ''S/ 10''], precios_regular = [Some ''S/ 10''],
                 precios_oferta = [Some ''S/ 10''], imagenes = [Some ''p.png'']\<rparr>"
  let ?w1 = "\<lparr>dstate = 4, files = (\<lambda>path. Absent), trace = [LogProcessing 1]\<rparr>"
  let ?w3 = "\<lparr>dstate = 10, files = (\<lambda>path. Absent),
               trace = [LogProcessing 1, LogProcessing 2, Sleep 500,
                        LogSlotError 2 WebDriverException, LogProcessing 3]\<rparr>"
  let ?w5 = "\<lparr>dstate = 9, files = (\<lambda>path. Absent),
               trace = [LogProcessing 1, Sleep 500, LogProcessing 2]\<rparr>"
  have h1: "harvest_loop broken_slot_env [1] empty_lists world0 = (?acc1, ?w1)"
    by (simp add: run_defs)
  have h2: "fst (first_attempt broken_slot_env 2 ?w1) = Inl WebDriverException"
    by (simp add: run_defs)
  have h3: "fst (second_attempt broken_slot_env 2 ?w1) = Inl WebDriverException"
    by (simp add: run_defs)
  have h4: "harvest_loop broken_slot_env [3] empty_lists
              (snd (process_slot broken_slot_env 2 ?acc1 ?w1)) = (?acc1, ?w3)"
    by (simp add: run_defs)
  note t = failed_slot_recorded_empty[where E = broken_slot_env and i = 2 and pre = "[1]"
      and ?w0.0 = world0 and ?acc1.0 = ?acc1 and ?w1.0 = ?w1 and ?e1.0 = WebDriverException
      and ?e2.0 = WebDriverException and post = "[3]" and ?acc3.0 = ?acc1 and ?w3.0 = ?w3]
  have a: "harvest_loop broken_slot_env ([1] @ 2 # [3]) empty_lists world0 =
             (lists_append ?acc1
                (lists_append
                   (append_record empty_lists (Some '''') (Some '''') (Some '''') (Some ''''))
                   ?acc1), ?w3)"
    using t h1 h2 h3 h4 by blast
  have b: "row (fst (harvest_loop broken_slot_env ([1] @ 2 # [3]) empty_lists world0))
             (length [1::nat]) = empty_record"
    using t h1 h2 h3 h4 by blast
  have c: "lists_append ?acc1
             (lists_append
                (append_record empty_lists (Some '''') (Some '''') (Some '''') (Some ''''))
                ?acc1) =
           \<lparr>descripciones = [Some ''S/ 10'', Some '''', Some ''S/ 10''],
            precios_regular = [Some ''S/ 10'', Some '''', Some ''S/ 10''],
            precios_oferta = [Some ''S/ 10'', Some '''', Some ''S/ 10''],
            imagenes = [Some ''p.png'', Some '''', Some ''p.png'']\<rparr>"
    by (simp add: lists_append_def append_record_def empty_lists_def)
  have g1: "harvest_loop flaky_env [] empty_lists world0 = (empty_lists, world0)"
    by simp
  have g2: "fst (first_attempt flaky_env 1 world0) = Inl WebDriverException"
    by (simp add: run_defs)
  have g3: "fst (second_attempt flaky_env 1 world0) =
              Inr (''S/ 10'', ''S/ 10'', ''S/ 10'', Some ''p.png'')"
    by (simp add: run_defs)
  have g4: "harvest_loop flaky_env [2] empty_lists
              (snd (process_slot flaky_env 1 empty_lists world0)) = (?acc1, ?w5)"
    by (simp add: run_defs)
  note u = failed_slot_recorded_empty[where E = flaky_env and i = 1 and pre = "[]"
      and ?w0.0 = world0 and ?acc1.0 = empty_lists and ?w1.0 = world0
      and ?e1.0 = WebDriverException and d = "''S/ 10''" and r = "''S/ 10''"
      and ofr = "''S/ 10''" and im = "Some ''p.png''" and post = "[2]"
      and ?acc3.0 = ?acc1 and ?w3.0 = ?w5]
  have d: "trace (snd (retry_loop flaky_env 1 2 [0..<2] empty_lists
                        (emit (LogProcessing 1) world0))) =
             trace world0 @ [LogProcessing 1, Sleep 500]"
    using u g1 g2 g3 g4 by blast
  have e: "row (fst (harvest_loop flaky_env ([] @ 1 # [2]) empty_lists world0))
             (length ([] :: nat list)) =
           (Some ''S/ 10'', Some ''S/ 10'', Some ''S/ 10'', Some ''p.png'')"
    using u g1 g2 g3 g4 by blast
  show ?thesis
    using a b d e unfolding c by blast
qed

section \<open>Scroll driver: best effort, never an exception\<close>

lemma ok_steps_0 [simp]: "ok_steps start step 0 = []"
  by (simp add: ok_steps_def)

lemma ok_steps_Suc:
  "ok_steps start step (Suc n) = ScrollBy start step # Sleep 200 # ok_steps (start + step) step n"
proof -
  have "(\<lambda>k. [ScrollBy (start + int (Suc k) * step) step, Sleep 200]) =
        (\<lambda>k. [ScrollBy (start + step + int k * step) step, Sleep 200])"
    by (simp add: algebra_simps)
  then show ?thesis
    unfolding ok_steps_def by (simp add: map_upt_Suc del: upt_Suc)
qed

lemma scroll_loop_trace:
  "\<exists>n tail. n \<le> m \<and>
     trace (scroll_loop E m cur step w) = trace w @ ok_steps cur step n @ tail \<and>
     (tail = [] \<and> n = m \<or>
      (\<exists>e. tail = [ScrollBy (cur + int n * step) step, LogScrollError e] \<and> n < m))"
proof (induction m arbitrary: cur w)
  case 0
  show ?case by simp
next
  case (Suc m)
  obtain r d1 where call: "scroll_by_amount E cur step (dstate w) = (r, d1)"
    by (cases "scroll_by_amount E cur step (dstate w)")
  show ?case
  proof (cases r)
    case (Inl e)
    then have "trace (scroll_loop E (Suc m) cur step w) =
        trace w @ ok_steps cur step 0 @ [ScrollBy (cur + int 0 * step) step, LogScrollError e]"
      using call by simp
    then show ?thesis by blast
  next
    case (Inr u)
    let ?w1 = "sleep E 200 (emit (ScrollBy cur step) (w\<lparr>dstate := d1\<rparr>))"
    have run: "scroll_loop E (Suc m) cur step w = scroll_loop E m (cur + step) step ?w1"
      using call Inr by simp
    have t1: "trace ?w1 = trace w @ [ScrollBy cur step, Sleep 200]"
      by simp
    from Suc.IH[of "cur + step" ?w1] obtain n tail where
      n: "n \<le> m" and
      tr: "trace (scroll_loop E m (cur + step) step ?w1) =
             trace ?w1 @ ok_steps (cur + step) step n @ tail" and
      tl: "tail = [] \<and> n = m \<or>
           (\<exists>e. tail = [ScrollBy (cur + step + int n * step) step, LogScrollError e] \<and> n < m)"
      by blast
    have a: "Suc n \<le> Suc m" using n by simp
    have b: "trace (scroll_loop E (Suc m) cur step w) =
               trace w @ ok_steps cur step (Suc n) @ tail"
      using run tr t1 by (simp add: ok_steps_Suc)
    have c: "tail = [] \<and> Suc n = Suc m \<or>
           (\<exists>e. tail = [ScrollBy (cur + int (Suc n) * step) step, LogScrollError e] \<and>
                Suc n < Suc m)"
      using tl by (auto simp: algebra_simps)
    from a b c show ?thesis by blast
  qed
qed

lemma scroll_loop_all_ok:
  "ok_run E cur step m (dstate w) = Some dm \<Longrightarrow>
   scroll_loop E m cur step w = w\<lparr>dstate := dm, trace := trace w @ ok_steps cur step m\<rparr>"
proof (induction m arbitrary: cur w)
  case 0
  then show ?case by simp
next
  case (Suc m)
  obtain r d1 where call: "scroll_by_amount E cur step (dstate w) = (r, d1)"
    by (cases "scroll_by_amount E cur step (dstate w)")
  show ?case
  proof (cases r)
    case (Inl e)
    then show ?thesis using Suc.prems call by simp
  next
    case (Inr u)
    let ?w1 = "sleep E 200 (emit (ScrollBy cur step) (w\<lparr>dstate := d1\<rparr>))"
    have d: "dstate ?w1 = time_sleep E 200 d1"
      by (simp add: sleep_def emit_def)
    have "ok_run E (cur + step) step m (dstate ?w1) = Some dm"
      using Suc.prems call Inr d by simp
    from Suc.IH[OF this] show ?thesis
      using call Inr by (simp add: ok_steps_Suc sleep_def emit_def)
  qed
qed

lemma scroll_loop_abort:
  "ok_run E cur step n (dstate w) = Some dn \<Longrightarrow> n < m \<Longrightarrow>
   scroll_by_amount E (cur + int n * step) step dn = (Inl e, d') \<Longrightarrow>
   scroll_loop E m cur step w =
     w\<lparr>dstate := d',
       trace := trace w @ ok_steps cur step n @
                  [ScrollBy (cur + int n * step) step, LogScrollError e]\<rparr>"
proof (induction n arbitrary: cur w m)
  case 0
  then obtain m' where m: "m = Suc m'" by (cases m) simp_all
  show ?case
    using 0 m by (simp add: emit_def)
next
  case (Suc n)
  then obtain m' where m: "m = Suc m'" and lt: "n < m'" by (cases m) simp_all
  obtain r d1 where call: "scroll_by_amount E cur step (dstate w) = (r, d1)"
    by (cases "scroll_by_amount E cur step (dstate w)")
  show ?case
  proof (cases r)
    case (Inl e0)
    then show ?thesis using Suc.prems(1) call by simp
  next
    case (Inr u)
    let ?w1 = "sleep E 200 (emit (ScrollBy cur step) (w\<lparr>dstate := d1\<rparr>))"
    have d: "dstate ?w1 = time_sleep E 200 d1"
      by (simp add: sleep_def emit_def)
    have ok: "ok_run E (cur + step) step n (dstate ?w1) = Some dn"
      using Suc.prems(1) call Inr d by simp
    have off: "cur + step + int n * step = cur + int (Suc n) * step"
      by (simp add: algebra_simps)
    have fail: "scroll_by_amount E (cur + step + int n * step) step dn = (Inl e, d')"
      using Suc.prems(3) by (simp only: off)
    note ih = Suc.IH[OF ok lt fail, unfolded off]
    show ?thesis
      using call Inr m ih by (simp add: ok_steps_Suc sleep_def emit_def)
  qed
qed

lemma ok_run_cases:
  "(\<exists>dm. ok_run E cur step m d = Some dm) \<or>
   (\<exists>n dn e d'. n < m \<and> ok_run E cur step n d = Some dn \<and>
      scroll_by_amount E (cur + int n * step) step dn = (Inl e, d'))"
proof (induction m arbitrary: cur d)
  case 0
  show ?case by simp
next
  case (Suc m)
  obtain r d1 where call: "scroll_by_amount E cur step d = (r, d1)"
    by (cases "scroll_by_amount E cur step d")
  show ?case
  proof (cases r)
    case (Inl e)
    have "0 < Suc m \<and> ok_run E cur step 0 d = Some d \<and>
          scroll_by_amount E (cur + int 0 * step) step d = (Inl e, d1)"
      using call Inl by simp
    then show ?thesis by blast
  next
    case (Inr u)
    from Suc.IH[of "cur + step" "time_sleep E 200 d1"] show ?thesis
    proof
      assume "\<exists>dm. ok_run E (cur + step) step m (time_sleep E 200 d1) = Some dm"
      then show ?thesis using call Inr by simp
    next
      assume "\<exists>n dn e d'. n < m \<and>
                ok_run E (cur + step) step n (time_sleep E 200 d1) = Some dn \<and>
                scroll_by_amount E (cur + step + int n * step) step dn = (Inl e, d')"
      then obtain n dn e d' where n: "n < m"
        and ok: "ok_run E (cur + step) step n (time_sleep E 200 d1) = Some dn"
        and fl: "scroll_by_amount E (cur + step + int n * step) step dn = (Inl e, d')"
        by blast
      have off: "cur + step + int n * step = cur + int (Suc n) * step"
        by (simp add: algebra_simps)
      have "Suc n < Suc m \<and> ok_run E cur step (Suc n) d = Some dn \<and>
            scroll_by_amount E (cur + int (Suc n) * step) step dn = (Inl e, d')"
        using n ok fl[unfolded off] call Inr by simp
      then show ?thesis by blast
    qed
  qed
qed

lemma scroll_page_abort:
  assumes "ok_run E start step n (dstate w) = Some dn" and "n < nat max_scrolls"
    and "scroll_by_amount E (start + int n * step) step dn = (Inl e, d')"
  shows "scroll_page E start step max_scrolls w =
       (Inr (),
        w\<lparr>dstate := d',
          trace := trace w @ CallScrollPage start step max_scrolls #
            concat (map (\<lambda>k. [ScrollBy (start + int k * step) step, Sleep 200]) [0..<n]) @
            [ScrollBy (start + int n * step) step, LogScrollError e]\<rparr>)"
proof -
  let ?w0 = "emit (CallScrollPage start step max_scrolls) w"
  have "ok_run E start step n (dstate ?w0) = Some dn"
    using assms(1) by (simp add: emit_def)
  from scroll_loop_abort[OF this assms(2) assms(3)] show ?thesis
    by (simp add: scroll_page_def ok_steps_def emit_def)
qed

lemma scroll_page_all_ok:
  assumes "ok_run E start step (nat max_scrolls) (dstate w) = Some dm"
  shows "scroll_page E start step max_scrolls w =
       (Inr (),
        w\<lparr>dstate := dm,
          trace := trace w @ CallScrollPage start step max_scrolls #
            concat (map (\<lambda>k. [ScrollBy (start + int k * step) step, Sleep 200])
                      [0..<nat max_scrolls])\<rparr>)"
proof -
  let ?w0 = "emit (CallScrollPage start step max_scrolls) w"
  have "ok_run E start step (nat max_scrolls) (dstate ?w0) = Some dm"
    using assms by (simp add: emit_def)
  from scroll_loop_all_ok[OF this] show ?thesis
    by (simp add: scroll_page_def ok_steps_def emit_def)
qed

text \<open>
  C8. \<^verbatim>\<open>_scroll_page\<close> never returns an exception. Its trace is the call, then \<open>n\<close>
  successful steps, at most \<^verbatim>\<open>max_scrolls\<close>, the \<open>k\<close>-th at the offset
  \<open>start + k * step\<close> and followed by a sleep of 0.2 s, and then either nothing, with all
  the steps done, or one more step whose exception is logged, after which no further step
  is made. Which of the two it is, is decided by the driver: when the driver accepts the
  first \<open>n\<close> steps, \<open>n\<close> below \<^verbatim>\<open>max_scrolls\<close>, and throws \<open>e\<close> at the next one, the
  invocation ends there, with \<open>e\<close> logged and the driver in the state that the throwing
  step left; when the driver accepts \<^verbatim>\<open>max_scrolls\<close> steps, all of them are made and
  nothing is logged; and one of the two is always the case.
\<close>

theorem scroll_page_total:
  "fst (scroll_page E start step max_scrolls w) = Inr () \<and>
   (\<exists>n tail. n \<le> nat max_scrolls \<and>
      trace (snd (scroll_page E start step max_scrolls w)) =
        trace w @ CallScrollPage start step max_scrolls #
          concat (map (\<lambda>k. [ScrollBy (start + int k * step) step, Sleep 200]) [0..<n]) @ tail \<and>
      (tail = [] \<and> n = nat max_scrolls \<or>
       (\<exists>e. tail = [ScrollBy (start + int n * step) step, LogScrollError e] \<and>
            n < nat max_scrolls))) \<and>
   (ok_run E start step j (dstate w) = Some dj \<and> j < nat max_scrolls \<and>
    scroll_by_amount E (start + int j * step) step dj = (Inl ex, d')
      \<longrightarrow>
    scroll_page E start step max_scrolls w =
      (Inr (),
       w\<lparr>dstate := d',
         trace := trace w @ CallScrollPage start step max_scrolls #
           concat (map (\<lambda>k. [ScrollBy (start + int k * step) step, Sleep 200]) [0..<j]) @
           [ScrollBy (start + int j * step) step, LogScrollError ex]\<rparr>)) \<and>
   (ok_run E start step (nat max_scrolls) (dstate w) = Some dm
      \<longrightarrow>
    scroll_page E start step max_scrolls w =
      (Inr (),
       w\<lparr>dstate := dm,
         trace := trace w @ CallScrollPage start step max_scrolls #
           concat (map (\<lambda>k. [ScrollBy (start + int k * step) step, Sleep 200])
                     [0..<nat max_scrolls])\<rparr>)) \<and>
   ((\<exists>dm. ok_run E start step (nat max_scrolls) (dstate w) = Some dm) \<or>
    (\<exists>n dn e d'. n < nat max_scrolls \<and> ok_run E start step n (dstate w) = Some dn \<and>
       scroll_by_amount E (start + int n * step) step dn = (Inl e, d')))"
  apply (rule conjI, simp add: scroll_page_def)
  apply (rule conjI)
   apply (insert scroll_loop_trace[of "nat max_scrolls" E start step
            "emit (CallScrollPage start step max_scrolls) w"])[1]
   apply (simp add: scroll_page_def ok_steps_def)
  apply (rule conjI)
   apply (rule impI, elim conjE, rule scroll_page_abort; assumption)
  apply (rule conjI)
   apply (rule impI, rule scroll_page_all_ok, assumption)
  apply (rule ok_run_cases)
  done

theorem scroll_page_total_witness:
  "scroll_page stuck_scroll_env 0 800 30 world0 =
     (Inr (),
      world0\<lparr>dstate := 2,
             trace := [CallScrollPage 0 800 30, ScrollBy 0 800, Sleep 200, ScrollBy 800 800,
                       Sleep 200, ScrollBy 1600 800, LogScrollError WebDriverException]\<rparr>) \<and>
   scroll_page blank_env 0 800 2 world0 =
     (Inr (),
      world0\<lparr>dstate := 0,
             trace := [CallScrollPage 0 800 2, ScrollBy 0 800, Sleep 200, ScrollBy 800 800,
                       Sleep 200]\<rparr>)"
proof -
  have a1: "ok_run stuck_scroll_env 0 800 2 (dstate world0) = Some 2"
    by (simp add: stuck_scroll_env_def blank_env_def world0_def numeral_2_eq_2)
  have a2: "(2::nat) < nat 30"
    by simp
  have a3: "scroll_by_amount stuck_scroll_env (0 + int 2 * 800) 800 2 =
              (Inl WebDriverException, 2)"
    by (simp add: stuck_scroll_env_def blank_env_def)
  have b1: "ok_run blank_env 0 800 (nat 2) (dstate world0) = Some 0"
    by (simp add: blank_env_def world0_def numeral_2_eq_2)
  note s = scroll_page_total[where E = stuck_scroll_env and start = 0 and step = 800
      and max_scrolls = 30 and w = world0 and j = 2 and dj = 2
      and ex = WebDriverException and d' = 2]
  note t = scroll_page_total[where E = blank_env and start = 0 and step = 800
      and max_scrolls = 2 and w = world0 and dm = 0]
  have c1: "scroll_page stuck_scroll_env 0 800 30 world0 =
      (Inr (),
       world0\<lparr>dstate := 2,
         trace := trace world0 @ CallScrollPage 0 800 30 #
           concat (map (\<lambda>k. [ScrollBy (0 + int k * 800) 800, Sleep 200]) [0..<2]) @
           [ScrollBy (0 + int 2 * 800) 800, LogScrollError WebDriverException]\<rparr>)"
    using s a1 a2 a3 by blast
  have c2: "scroll_page blank_env 0 800 2 world0 =
      (Inr (),
       world0\<lparr>dstate := 0,
         trace := trace world0 @ CallScrollPage 0 800 2 #
           concat (map (\<lambda>k. [ScrollBy (0 + int k * 800) 800, Sleep 200]) [0..<nat 2])\<rparr>)"
    using t b1 by blast
  show ?thesis
    using c1 c2 by (simp add: world0_def upt_0_2)
qed

section \<open>Listing harvester: the scroll cadence\<close>

lemma scroll_slots_from_markers:
  "scroll_slots_from cur (filter is_marker t) = scroll_slots_from cur t"
proof (induction t arbitrary: cur)
  case Nil
  show ?case by simp
next
  case (Cons ev t)
  then show ?case by (cases ev) simp_all
qed

lemma scroll_calls_markers:
  "filter is_scroll_call (filter is_marker t) = filter is_scroll_call t"
proof (induction t)
  case Nil
  show ?case by simp
next
  case (Cons ev t)
  then show ?case by (cases ev) simp_all
qed

lemma markers_scroll_loop:
  "filter is_marker (trace (scroll_loop E m cur step w)) = filter is_marker (trace w)"
  by (induction m arbitrary: cur w) (simp_all split: prod.splits sum.splits)

lemma markers_retry_loop:
  "filter is_marker (trace (snd (retry_loop E i m rs acc w))) = filter is_marker (trace w)"
proof (induction rs arbitrary: acc w)
  case Nil
  show ?case by simp
next
  case (Cons r rs)
  obtain res w1 where lf: "lookup_fields E i w = (res, w1)"
    by (cases "lookup_fields E i w")
  have t: "trace w1 = trace w"
    using trace_lookup_fields[of E i w] lf by simp
  show ?case
  proof (cases res)
    case (Inr x)
    then show ?thesis using lf t by (cases x) simp
  next
    case (Inl e)
    then show ?thesis using lf t Cons.IH by simp
  qed
qed

lemma markers_process_slot:
  "filter is_marker (trace (snd (process_slot E i acc w))) =
     filter is_marker (trace w) @ slot_markers i"
proof -
  obtain a1 w1 where r: "retry_loop E i 2 [0..<2] acc (emit (LogProcessing i) w) = (a1, w1)"
    by (cases "retry_loop E i 2 [0..<2] acc (emit (LogProcessing i) w)")
  have m1: "filter is_marker (trace w1) = filter is_marker (trace w) @ [LogProcessing i]"
    using markers_retry_loop[of E i 2 "[0..<2]" acc "emit (LogProcessing i) w"] r by simp
  show ?thesis
    using r m1 by (simp add: process_slot_def scroll_page_def markers_scroll_loop slot_markers_def)
qed

lemma markers_harvest_loop:
  "filter is_marker (trace (snd (harvest_loop E slots acc w))) =
     filter is_marker (trace w) @ concat (map slot_markers slots)"
proof (induction slots arbitrary: acc w)
  case Nil
  show ?case by simp
next
  case (Cons i slots)
  obtain a1 w1 where p: "process_slot E i acc w = (a1, w1)"
    by (cases "process_slot E i acc w")
  have "filter is_marker (trace w1) = filter is_marker (trace w) @ slot_markers i"
    using markers_process_slot[of E i acc w] p by simp
  then show ?case using p Cons.IH[of a1 w1] by simp
qed

lemma scroll_slots_from_slot_markers:
  "scroll_slots_from cur (concat (map slot_markers slots)) = filter (\<lambda>i. i mod 10 = 0) slots"
  by (induction slots arbitrary: cur) (simp_all add: slot_markers_def)

lemma scroll_calls_slot_markers:
  "length (filter is_scroll_call (concat (map slot_markers slots))) =
     length (filter (\<lambda>i. i mod 10 = 0) slots)"
  by (induction slots) (simp_all add: slot_markers_def)

lemma multiples_of_ten: "filter (\<lambda>i. i mod 10 = 0) [1..<50] = [10, 20, 30, 40::nat]"
  by code_simp

lemma markers_scrap_ripley:
  "filter is_marker (trace (snd (scrap_ripley E (w\<lparr>trace := []\<rparr>)))) =
     concat (map slot_markers [1..<50])"
proof -
  have "snd (scrap_ripley E (w\<lparr>trace := []\<rparr>)) =
          snd (harvest_loop E [1..<50] empty_lists (w\<lparr>trace := []\<rparr>))"
    by (simp add: scrap_ripley_def split: prod.splits)
  then show ?thesis
    using markers_harvest_loop[of E "[1..<50]" empty_lists "w\<lparr>trace := []\<rparr>"]
    by simp
qed

text \<open>
  C7. In every run of \<^verbatim>\<open>scrap_ripley\<close> (slots 1 to 49, a scroll when the slot index is
  a multiple of 10) the scroll driver is invoked at the slots 10, 20, 30 and 40, in this
  order and at no other slot: four invocations, none at slot 49.
\<close>

theorem scroll_every_ten_slots:
  "scroll_slots (trace (snd (scrap_ripley E (w\<lparr>trace := []\<rparr>)))) = [10, 20, 30, 40] \<and>
   length (filter is_scroll_call (trace (snd (scrap_ripley E (w\<lparr>trace := []\<rparr>))))) = 4 \<and>
   49 \<notin> set (scroll_slots (trace (snd (scrap_ripley E (w\<lparr>trace := []\<rparr>)))))"
proof -
  let ?t = "trace (snd (scrap_ripley E (w\<lparr>trace := []\<rparr>)))"
  have "scroll_slots ?t = scroll_slots_from 0 (filter is_marker ?t)"
    by (simp only: scroll_slots_def scroll_slots_from_markers)
  also have "\<dots> = filter (\<lambda>i. i mod 10 = 0) [1..<50]"
    by (simp only: markers_scrap_ripley scroll_slots_from_slot_markers)
  finally have slots: "scroll_slots ?t = [10, 20, 30, 40]"
    by (simp only: multiples_of_ten)
  have "length (filter is_scroll_call ?t) = length (filter is_scroll_call (filter is_marker ?t))"
    by (simp only: scroll_calls_markers)
  also have "\<dots> = length (filter (\<lambda>i. i mod 10 = 0) [1..<50::nat])"
    by (simp only: markers_scrap_ripley scroll_calls_slot_markers)
  finally have calls: "length (filter is_scroll_call ?t) = 4"
    by (simp only: multiples_of_ten) simp
  show ?thesis
    using slots calls by simp
qed

section \<open>Tabular export\<close>

lemma wait_for_page_load_raises:
  "wait_for_page_load E timeout w = (Inl AttributeError, w)"
  by (simp add: wait_for_page_load_def scrapper_attributes_def)

text \<open>
  \<^verbatim>\<open>get_data_from_pagenumber\<close> never comes to the harvest: \<^verbatim>\<open>self.wait\<close> does not exist,
  and the \<^verbatim>\<open>AttributeError\<close> is not a \<^verbatim>\<open>TimeoutException\<close>.
\<close>

lemma get_data_from_pagenumber_raises:
  "isl (fst (get_data_from_pagenumber E base_url page_number export_path w))"
  by (simp add: get_data_from_pagenumber_def wait_for_page_load_raises
        split: prod.splits sum.splits)

lemma scrap_ripley_aligned:
  "\<exists>data w1. scrap_ripley E w = (Inr data, w1) \<and> aligned data 49"
proof -
  obtain data w1 where h: "harvest_loop E [1..<50] empty_lists w = (data, w1)"
    by (cases "harvest_loop E [1..<50] empty_lists w")
  have "aligned data 49"
    using harvest_loop_aligned[OF aligned_empty, of E "[1..<50]" w] h by simp
  then show ?thesis
    using h by (simp add: scrap_ripley_def)
qed

text \<open>
  C4, as the code has it. The table that \<^verbatim>\<open>transform_to_df\<close> builds from the lists of a
  harvest has the columns \<^verbatim>\<open>descripcion, precio_regular, precio_oferta, imagen\<close>, in this
  order, and 49 cells in every column: one row for every slot.
\<close>

theorem harvest_table_columns:
  "has_columns (harvest_table E w)
     [''descripcion'', ''precio_regular'', ''precio_oferta'', ''imagen''] \<and>
   has_rows (harvest_table E w) 49"
proof -
  obtain data w1 where s: "scrap_ripley E w = (Inr data, w1)" and a: "aligned data 49"
    using scrap_ripley_aligned[of E w] by blast
  show ?thesis
    using s a by (simp add: harvest_table_def transform_to_df_def aligned_def)
qed

text \<open>
  The columns are not named \<^verbatim>\<open>description, regular_price, offer_price, image\<close>.
\<close>

theorem harvest_table_columns_counterexample:
  "\<not> has_columns (harvest_table blank_env world0)
       [''description'', ''regular_price'', ''offer_price'', ''image'']"
proof -
  obtain data w1 where s: "scrap_ripley blank_env world0 = (Inr data, w1)"
    and a: "aligned data 49"
    using scrap_ripley_aligned[of blank_env world0] by blast
  show ?thesis
    using s a by (simp add: harvest_table_def transform_to_df_def aligned_def)
qed

section \<open>Page session manager: cookies\<close>

lemma load_cookies_returns_bool:
  "\<exists>b w1. load_cookies E p w = (Inr b, w1)"
proof -
  obtain r w1 where b: "load_cookies_body E p w = (r, w1)"
    by (cases "load_cookies_body E p w")
  show ?thesis
    using b by (cases r) (auto simp: load_cookies_def)
qed

text \<open>
  C5. \<^verbatim>\<open>load_cookies\<close> returns a boolean for every path and every file system: never an
  exception. It returns \<^verbatim>\<open>False\<close>, leaving the session as it was, when the file does
  not exist, when it cannot be opened, and when \<^verbatim>\<open>pickle.load\<close> rejects its content.
\<close>

theorem load_cookies_never_raises:
  "(\<exists>b w1. load_cookies E p w = (Inr b, w1)) \<and>
   (files w p = Absent \<longrightarrow> load_cookies E p w = (Inr False, w)) \<and>
   (files w p = NoAccess \<longrightarrow> load_cookies E p w = (Inr False, w)) \<and>
   (\<forall>b e. files w p = Regular b \<and> unpickle b = Inl e \<longrightarrow>
            load_cookies E p w = (Inr False, w))"
  using load_cookies_returns_bool[of E p w]
  by (auto simp: load_cookies_def load_cookies_body_def)

theorem load_cookies_never_raises_witness:
  "load_cookies blank_env cookie_file world0 = (Inr False, world0) \<and>
   load_cookies blank_env cookie_file garbage_world = (Inr False, garbage_world)"
proof -
  have a: "files world0 cookie_file = Absent"
    by (simp add: world0_def)
  have b: "files garbage_world cookie_file = Regular (Garbage [0]) \<and>
           unpickle (Garbage [0]) = Inl UnpicklingError"
    by (simp add: garbage_world_def world0_def)
  show ?thesis
    using load_cookies_never_raises[of blank_env cookie_file world0]
      load_cookies_never_raises[of blank_env cookie_file garbage_world] a b
    by blast
qed

lemma trace_open_home:
  "trace (snd (open_home E t w)) = trace w"
  by (simp add: open_home_def split: prod.splits sum.splits)

lemma load_cookies_iterable:
  assumes "files w p = Regular b" and "unpickle b = Inr obj" and "py_iter obj = Inr cs"
  shows "load_cookies E p w = (Inr True, w\<lparr>dstate := add_cookies E cs (dstate w)\<rparr>)"
  using assms by (simp add: load_cookies_def load_cookies_body_def)

lemma save_cookies_writes:
  assumes "save_cookies E p w = (Inr (), w1)"
  shows "\<exists>cookies. files w1 p = Regular (Pickled (PyList cookies))"
  using assms
  by (auto simp: save_cookies_def split: prod.splits sum.splits if_splits)

lemma trace_load_cookies:
  "trace (snd (load_cookies E p w)) = trace w"
  by (simp add: load_cookies_def load_cookies_body_def
        split: prod.splits sum.splits fnode.splits)

text \<open>
  C6. After \<^verbatim>\<open>save_cookies\<close> has written to a path, \<^verbatim>\<open>load_cookies\<close> on the same path, in
  any later session that finds the file as it was written, returns \<^verbatim>\<open>True\<close>; and
  whenever \<^verbatim>\<open>load_cookies\<close> returns \<^verbatim>\<open>True\<close>, the session block of \<^verbatim>\<open>main\<close> does not
  come to \<^verbatim>\<open>input\<close>: it adds no prompt to the trace.
\<close>

theorem saved_cookies_skip_gate:
  "(save_cookies E p w = (Inr (), w1) \<and> files w2 p = files w1 p
      \<longrightarrow> fst (load_cookies E2 p w2) = Inr True) \<and>
   (fst (load_cookies E2 p w3) = Inr True
      \<longrightarrow> filter is_prompt (trace (snd (establish_session E2 p wait_time w3))) =
           filter is_prompt (trace w3))"
proof (intro conjI impI)
  assume a: "save_cookies E p w = (Inr (), w1) \<and> files w2 p = files w1 p"
  then obtain cookies where f: "files w2 p = Regular (Pickled (PyList cookies))"
    using save_cookies_writes[of E p w w1] by auto
  show "fst (load_cookies E2 p w2) = Inr True"
    using load_cookies_iterable[OF f, of "PyList cookies" cookies E2] by simp
next
  assume t: "fst (load_cookies E2 p w3) = Inr True"
  obtain w4 where l: "load_cookies E2 p w3 = (Inr True, w4)"
    using t by (cases "load_cookies E2 p w3") simp
  have tr: "trace w4 = trace w3"
    using trace_load_cookies[of E2 p w3] l by simp
  have "establish_session E2 p wait_time w3 = open_home E2 wait_time w4"
    using l by (simp add: establish_session_def)
  then show "filter is_prompt (trace (snd (establish_session E2 p wait_time w3))) =
             filter is_prompt (trace w3)"
    using tr by (simp add: trace_open_home)
qed

theorem saved_cookies_skip_gate_witness:
  "fst (load_cookies blank_env cookie_file
          (snd (save_cookies cookie_env cookie_file world0))) = Inr True \<and>
   filter is_prompt
     (trace (snd (establish_session blank_env cookie_file 10
                    (snd (save_cookies cookie_env cookie_file world0))))) = []"
proof -
  let ?w1 = "world0\<lparr>files := (files world0)
                (cookie_file := Regular (Pickled (PyList [session_cookie])))\<rparr>"
  have s: "save_cookies cookie_env cookie_file world0 = (Inr (), ?w1)"
    by (simp add: save_cookies_def cookie_env_def blank_env_def world0_def)
  have t: "filter is_prompt (trace ?w1) = []"
    by (simp add: world0_def)
  note inst = saved_cookies_skip_gate[where E = cookie_env and p = cookie_file and w = world0
      and ?w1.0 = ?w1 and ?w2.0 = ?w1 and ?E2.0 = blank_env and ?w3.0 = ?w1 and wait_time = 10]
  have l: "fst (load_cookies blank_env cookie_file ?w1) = Inr True"
    using inst s by blast
  have g: "filter is_prompt (trace (snd (establish_session blank_env cookie_file 10 ?w1))) =
           filter is_prompt (trace ?w1)"
    using inst l by blast
  show ?thesis
    using l g s t by simp
qed

text \<open>
  In \<^verbatim>\<open>main\<close> itself the session block is not reached: \<^verbatim>\<open>Scrapper(driver)\<close> lacks the
  argument \<^verbatim>\<open>base_url\<close>.
\<close>

lemma main_session_raises:
  "main_session E p wait_time w = (Inl TypeError, w)"
  by (simp add: main_session_def scrapper_init_def)

lemma add_cookies_all_rejected:
  "(\<forall>c\<in>set cs. \<forall>d. isl (fst (add_cookie E c d)) \<and> snd (add_cookie E c d) = d) \<Longrightarrow>
   add_cookies E cs d = d"
proof (induction cs arbitrary: d)
  case Nil
  show ?case by simp
next
  case (Cons c cs)
  then have "snd (add_cookie E c d) = d" by simp
  then show ?case
    using Cons by (cases "add_cookie E c d") (auto split: sum.splits)
qed

text \<open>
  C10, as the code has it. When the content of the file is a pickle of an iterable object,
  \<^verbatim>\<open>load_cookies\<close> returns \<^verbatim>\<open>True\<close> whatever \<^verbatim>\<open>add_cookie\<close> does with its elements; when
  \<^verbatim>\<open>add_cookie\<close> raises for every one of them and leaves the session as it was, the
  result is still \<^verbatim>\<open>True\<close> and no cookie has been applied.
\<close>

theorem load_cookies_true_without_cookies:
  assumes "files w p = Regular b" and "unpickle b = Inr obj" and "py_iter obj = Inr cs"
  shows "load_cookies E p w = (Inr True, w\<lparr>dstate := add_cookies E cs (dstate w)\<rparr>) \<and>
         ((\<forall>c\<in>set cs. \<forall>d. isl (fst (add_cookie E c d)) \<and> snd (add_cookie E c d) = d)
            \<longrightarrow> load_cookies E p w = (Inr True, w))"
  using load_cookies_iterable[OF assms, of E] add_cookies_all_rejected[of cs E "dstate w"]
  by auto

theorem load_cookies_true_without_cookies_witness:
  "load_cookies blank_env cookie_file saved_world = (Inr True, saved_world)"
proof -
  have a: "files saved_world cookie_file =
             Regular (Pickled (PyList [session_cookie, session_cookie]))"
    by (simp add: saved_world_def world0_def)
  have b: "unpickle (Pickled (PyList [session_cookie, session_cookie])) =
             Inr (PyList [session_cookie, session_cookie])"
    by simp
  have c: "py_iter (PyList [session_cookie, session_cookie]) =
             Inr [session_cookie, session_cookie]"
    by simp
  have d: "\<forall>c\<in>set [session_cookie, session_cookie]. \<forall>d.
             isl (fst (add_cookie blank_env c d)) \<and> snd (add_cookie blank_env c d) = d"
    by (simp add: blank_env_def)
  show ?thesis
    using load_cookies_true_without_cookies[OF a b c, of blank_env] d by blast
qed

text \<open>
  A pickle of a number deserializes, and \<^verbatim>\<open>load_cookies\<close> returns \<^verbatim>\<open>False\<close>: the
  \<^verbatim>\<open>for\<close> raises \<^verbatim>\<open>TypeError\<close> inside the outer \<^verbatim>\<open>try\<close>.
\<close>

theorem load_cookies_number_counterexample:
  "files number_world cookie_file = Regular (Pickled (PyInt 5)) \<and>
   unpickle (Pickled (PyInt 5)) = Inr (PyInt 5) \<and>
   load_cookies blank_env cookie_file number_world = (Inr False, number_world)"
  by (simp add: number_world_def world0_def load_cookies_def load_cookies_body_def)

section \<open>Field extractor: what a field can be\<close>

text \<open>
  The absence of the element is not an exception of \<^verbatim>\<open>_find_element_safe\<close>: it returns
  the empty string.
\<close>

lemma find_element_safe_absent:
  "wait_presence E t x (dstate w) = (Inl e, d1) \<Longrightarrow> is_absence e \<Longrightarrow>
   find_element_safe E x t w = (Inr '''', w\<lparr>dstate := d1\<rparr>)"
  by (simp add: find_element_safe_def)

text \<open>The three text fields of every record of a harvest are strings.\<close>

lemma retry_loop_text_fields:
  assumes "None \<notin> set (descripciones acc) \<union> set (precios_regular acc) \<union> set (precios_oferta acc)"
  shows "None \<notin> set (descripciones (fst (retry_loop E i m rs acc w))) \<union>
                 set (precios_regular (fst (retry_loop E i m rs acc w))) \<union>
                 set (precios_oferta (fst (retry_loop E i m rs acc w)))"
  using assms
proof (induction rs arbitrary: acc w)
  case Nil
  then show ?case by simp
next
  case (Cons r rs)
  obtain res w1 where lf: "lookup_fields E i w = (res, w1)"
    by (cases "lookup_fields E i w")
  show ?case
  proof (cases res)
    case (Inr x)
    then show ?thesis
      using lf Cons.prems by (cases x) (auto simp: append_record_def)
  next
    case (Inl e)
    let ?acc = "append_record acc (Some '''') (Some '''') (Some '''') (Some '''')"
    have "None \<notin> set (descripciones ?acc) \<union> set (precios_regular ?acc) \<union>
                  set (precios_oferta ?acc)"
      using Cons.prems by (auto simp: append_record_def)
    from Cons.IH[OF this] Cons.IH[OF Cons.prems] show ?thesis
      using lf Inl by simp
  qed
qed

lemma harvest_loop_text_fields:
  assumes "None \<notin> set (descripciones acc) \<union> set (precios_regular acc) \<union> set (precios_oferta acc)"
  shows "None \<notin> set (descripciones (fst (harvest_loop E slots acc w))) \<union>
                 set (precios_regular (fst (harvest_loop E slots acc w))) \<union>
                 set (precios_oferta (fst (harvest_loop E slots acc w)))"
  using assms
proof (induction slots arbitrary: acc w)
  case Nil
  then show ?case by simp
next
  case (Cons i slots)
  obtain a1 w1 where p: "process_slot E i acc w = (a1, w1)"
    by (cases "process_slot E i acc w")
  have "a1 = fst (retry_loop E i 2 [0..<2] acc (emit (LogProcessing i) w))"
    using p by (auto simp: process_slot_def split: prod.splits if_splits)
  then have "None \<notin> set (descripciones a1) \<union> set (precios_regular a1) \<union> set (precios_oferta a1)"
    using retry_loop_text_fields[OF Cons.prems] by simp
  from Cons.IH[OF this, of w1] show ?case
    using p by simp
qed

text \<open>
  C9, at the input where it fails. On a page whose image elements have no \<^verbatim>\<open>src\<close>
  attribute, \<^verbatim>\<open>get_attribute\<close> returns \<^verbatim>\<open>None\<close>, \<^verbatim>\<open>_find_image_safe\<close> returns it, and the
  image field of the first record of \<^verbatim>\<open>scrap_ripley\<close> is \<^verbatim>\<open>None\<close>, not a string.
\<close>

theorem image_field_none:
  "find_image_safe lazy_image_env (img_xpaths 1) 3 world0 = (Inr None, world0\<lparr>dstate := 1\<rparr>) \<and>
   map_sum id (\<lambda>data. row data 0) (fst (scrap_ripley lazy_image_env world0)) =
     Inr (Some ''S/ 10'', Some ''S/ 10'', Some ''S/ 10'', None)"
proof -
  have a: "find_image_safe lazy_image_env (img_xpaths 1) 3 world0 =
             (Inr None, world0\<lparr>dstate := 1\<rparr>)"
    by (simp add: run_defs)
  have "row (fst (harvest_loop lazy_image_env [1..<Suc 49] empty_lists world0)) 0 =
        row (fst (process_slot lazy_image_env (Suc 0) empty_lists
                    (snd (harvest_loop lazy_image_env [1..<Suc 0] empty_lists world0)))) 0"
    by (rule harvest_row) simp
  also have "\<dots> = (Some ''S/ 10'', Some ''S/ 10'', Some ''S/ 10'', None)"
    by (simp add: run_defs)
  finally have b: "row (fst (harvest_loop lazy_image_env [1..<50] empty_lists world0)) 0 =
      (Some ''S/ 10'', Some ''S/ 10'', Some ''S/ 10'', None)"
    by simp
  have c: "fst (scrap_ripley lazy_image_env world0) =
             Inr (fst (harvest_loop lazy_image_env [1..<50] empty_lists world0))"
    by (simp add: scrap_ripley_def split: prod.splits)
  show ?thesis
    using a b c by simp
qed

end
